theory Spec2Isabelle
  imports Main "HOL-Library.Word" "HOL-Library.Multiset"
begin

unbundle bit_operations_syntax

section \<open>Metrics core (include/benchmark.h, src/metrics.c)\<close>

text \<open>
  \<^verbatim>\<open>benchmark_metrics_t\<close> as a record. The \<^verbatim>\<open>uint64_t\<close> fields are 64-bit words
  (addition wraps, \<open><\<close> and \<open>div\<close> are unsigned); \<^verbatim>\<open>latency_sample_count\<close> is a
  \<^verbatim>\<open>size_t\<close> that the code keeps at most \<open>MAX_LATENCY_SAMPLES\<close>, a natural number here.
  \<^verbatim>\<open>latency_samples\<close> is the fixed array of \<open>MAX_LATENCY_SAMPLES\<close> entries.
\<close>

definition MAX_LATENCY_SAMPLES :: nat where
  "MAX_LATENCY_SAMPLES = 10000"

record benchmark_metrics =
  commands_processed :: "64 word"
  bytes_processed :: "64 word"
  total_time_ns :: "64 word"
  cpu_time_us :: "64 word"
  peak_memory_kb :: "64 word"
  latency_samples :: "64 word list"
  latency_sample_count :: nat
  total_latency_ns :: "64 word"
  min_latency_ns :: "64 word"
  max_latency_ns :: "64 word"
  avg_latency_ns :: "64 word"
  p50_latency_ns :: "64 word"
  p90_latency_ns :: "64 word"
  p99_latency_ns :: "64 word"

text \<open>\<^verbatim>\<open>benchmark_metrics_init\<close>: \<^verbatim>\<open>memset\<close> to zero, then \<^verbatim>\<open>min_latency_ns = UINT64_MAX\<close>.\<close>

definition benchmark_metrics_init :: benchmark_metrics where
  "benchmark_metrics_init =
     \<lparr> commands_processed = 0, bytes_processed = 0, total_time_ns = 0, cpu_time_us = 0,
       peak_memory_kb = 0,
       latency_samples = replicate MAX_LATENCY_SAMPLES 0,
       latency_sample_count = 0,
       total_latency_ns = 0,
       min_latency_ns = - 1,
       max_latency_ns = 0, avg_latency_ns = 0,
       p50_latency_ns = 0, p90_latency_ns = 0, p99_latency_ns = 0 \<rparr>"

text \<open>
  \<^verbatim>\<open>benchmark_record_latency\<close>, statement by statement: the guarded store with the
  post-increment of the count, the unguarded addition to the running sum, then the two
  online updates of minimum and maximum.
\<close>

definition benchmark_record_latency :: "benchmark_metrics \<Rightarrow> 64 word \<Rightarrow> benchmark_metrics" where
  "benchmark_record_latency metrics latency_ns =
     (let m1 = (if latency_sample_count metrics < MAX_LATENCY_SAMPLES
                then metrics\<lparr> latency_samples :=
                                (latency_samples metrics)[latency_sample_count metrics := latency_ns],
                              latency_sample_count := latency_sample_count metrics + 1 \<rparr>
                else metrics);
          m2 = m1\<lparr> total_latency_ns := total_latency_ns m1 + latency_ns \<rparr>;
          m3 = (if latency_ns < min_latency_ns m2 then m2\<lparr> min_latency_ns := latency_ns \<rparr> else m2);
          m4 = (if latency_ns > max_latency_ns m3 then m3\<lparr> max_latency_ns := latency_ns \<rparr> else m3)
      in m4)"

text \<open>A sequence of \<^verbatim>\<open>benchmark_record_latency\<close> calls on one metrics record, in order.\<close>

definition record_latencies :: "benchmark_metrics \<Rightarrow> 64 word list \<Rightarrow> benchmark_metrics" where
  "record_latencies = foldl benchmark_record_latency"

text \<open>
  The callers (src/benchmark.c). \<^verbatim>\<open>benchmark_resp_parsing\<close> and \<^verbatim>\<open>benchmark_respb_parsing\<close>
  are the only two; both initialise the record and then, for each command, do the
  same with it: after the parse,
  \<^verbatim>\<open>if (sample_latency && metrics->latency_sample_count < MAX_LATENCY_SAMPLES)\<close> guards the
  call of \<^verbatim>\<open>benchmark_record_latency\<close> with the measured time, and on a result of 1
  \<^verbatim>\<open>commands_processed\<close> and \<^verbatim>\<open>bytes_processed\<close> are advanced. The measured time, the
  result of the parse and the number of bytes consumed are what a command contributes.
  A loop ends at the first result other than 1; the commands of a run, over all
  iterations, are a list whose results are 1 except possibly the last.
\<close>

definition driver_command ::
    "bool \<Rightarrow> benchmark_metrics \<Rightarrow> 64 word \<times> int \<times> 64 word \<Rightarrow> benchmark_metrics" where
  "driver_command sample_latency metrics = (\<lambda>(latency_ns, result, bytes_consumed).
     let m1 = (if sample_latency \<and> latency_sample_count metrics < MAX_LATENCY_SAMPLES
               then benchmark_record_latency metrics latency_ns else metrics)
     in if result = 1
        then m1\<lparr> commands_processed := commands_processed m1 + 1,
                  bytes_processed := bytes_processed m1 + bytes_consumed \<rparr>
        else m1)"

definition driver_commands :: "bool \<Rightarrow> (64 word \<times> int \<times> 64 word) list \<Rightarrow> benchmark_metrics" where
  "driver_commands sample_latency cmds =
     foldl (driver_command sample_latency) benchmark_metrics_init cmds"

text \<open>
  \<^verbatim>\<open>benchmark_compute_percentiles\<close>. \<^verbatim>\<open>qsort\<close> with \<^verbatim>\<open>compare_uint64\<close> orders the first
  \<^verbatim>\<open>latency_sample_count\<close> entries ascending as unsigned numbers; on values without
  identity every sorting algorithm gives the list \<open>sort\<close> gives. The entries past the count
  stay where they are. The three indices are computed in \<^verbatim>\<open>size_t\<close>; with a count of at
  most 10000 the products stay far below \<open>2 ^ 64\<close>. The average is an unsigned 64-bit division.
\<close>

definition benchmark_compute_percentiles :: "benchmark_metrics \<Rightarrow> benchmark_metrics" where
  "benchmark_compute_percentiles metrics =
     (if latency_sample_count metrics = 0 then metrics
      else
        let n = latency_sample_count metrics;
            samples = sort (take n (latency_samples metrics)) @ drop n (latency_samples metrics);
            p50_idx = n * 50 div 100;
            p90_idx = n * 90 div 100;
            p99_idx = n * 99 div 100
        in metrics\<lparr> latency_samples := samples,
                     p50_latency_ns := samples ! p50_idx,
                     p90_latency_ns := samples ! p90_idx,
                     p99_latency_ns := samples ! p99_idx,
                     avg_latency_ns := total_latency_ns metrics div of_nat n \<rparr>)"

subsection \<open>Invariants of recording\<close>

text \<open>
  What a metrics record looks like after any number of recordings: the array keeps its
  size, the count stays within it, and every stored sample lies between the tracked
  minimum and maximum.
\<close>

definition metrics_inv :: "benchmark_metrics \<Rightarrow> bool" where
  "metrics_inv m \<longleftrightarrow>
     length (latency_samples m) = MAX_LATENCY_SAMPLES \<and>
     latency_sample_count m \<le> MAX_LATENCY_SAMPLES \<and>
     (\<forall>x \<in> set (take (latency_sample_count m) (latency_samples m)).
         min_latency_ns m \<le> x \<and> x \<le> max_latency_ns m)"

lemma metrics_inv_init: "metrics_inv benchmark_metrics_init"
  by (simp add: metrics_inv_def benchmark_metrics_init_def)

lemma take_Suc_update:
  assumes "n < length xs"
  shows "take (Suc n) (xs[n := v]) = take n xs @ [v]"
  using assms by (simp add: take_Suc_conv_app_nth)

lemma metrics_inv_record:
  assumes "metrics_inv m"
  shows "metrics_inv (benchmark_record_latency m v)"
proof (cases "latency_sample_count m < MAX_LATENCY_SAMPLES")
  case True
  with assms have len: "latency_sample_count m < length (latency_samples m)"
    by (simp add: metrics_inv_def)
  have old: "\<forall>x \<in> set (take (latency_sample_count m) (latency_samples m)).
               min_latency_ns m \<le> x \<and> x \<le> max_latency_ns m"
    using assms by (simp add: metrics_inv_def)
  show ?thesis
    using assms True old
    by (auto simp: metrics_inv_def benchmark_record_latency_def Let_def
                   take_Suc_update [OF len] not_less
             intro: less_imp_le order_trans [OF less_imp_le] order_trans [OF _ less_imp_le])
next
  case False
  then show ?thesis
    using assms
    by (auto simp: metrics_inv_def benchmark_record_latency_def Let_def not_less
             intro: less_imp_le order_trans [OF less_imp_le] order_trans [OF _ less_imp_le])
qed

lemma metrics_inv_record_latencies:
  "metrics_inv m \<Longrightarrow> metrics_inv (record_latencies m xs)"
  unfolding record_latencies_def
  by (induction xs arbitrary: m) (simp_all add: metrics_inv_record)

lemma record_latency_count:
  "latency_sample_count (benchmark_record_latency m v) =
     min (latency_sample_count m + 1) (max (latency_sample_count m) MAX_LATENCY_SAMPLES)"
  by (simp add: benchmark_record_latency_def Let_def)

lemma record_latencies_count:
  "latency_sample_count m \<le> MAX_LATENCY_SAMPLES \<Longrightarrow>
   latency_sample_count (record_latencies m xs) =
     min (latency_sample_count m + length xs) MAX_LATENCY_SAMPLES"
  unfolding record_latencies_def
proof (induction xs arbitrary: m)
  case Nil
  then show ?case by simp
next
  case (Cons v xs)
  have "latency_sample_count (benchmark_record_latency m v) \<le> MAX_LATENCY_SAMPLES"
    using Cons.prems by (simp add: record_latency_count)
  from Cons.IH [OF this] show ?case
    using Cons.prems by (simp add: record_latency_count)
qed

lemma record_latency_total:
  "total_latency_ns (benchmark_record_latency m v) = total_latency_ns m + v"
  by (simp add: benchmark_record_latency_def Let_def)

lemma record_latencies_total:
  "total_latency_ns (record_latencies m xs) = total_latency_ns m + sum_list xs"
  unfolding record_latencies_def
  by (induction xs arbitrary: m) (simp_all add: record_latency_total add.assoc)

lemma record_latency_stored:
  assumes "length (latency_samples m) = MAX_LATENCY_SAMPLES"
      and "latency_sample_count m \<le> MAX_LATENCY_SAMPLES"
  shows "take (latency_sample_count (benchmark_record_latency m v))
              (latency_samples (benchmark_record_latency m v)) =
         take (latency_sample_count m) (latency_samples m) @
           (if latency_sample_count m < MAX_LATENCY_SAMPLES then [v] else [])"
  using assms
  by (simp add: benchmark_record_latency_def Let_def take_Suc_update)

lemma record_latencies_stored:
  assumes "metrics_inv m"
  shows "take (latency_sample_count (record_latencies m xs))
              (latency_samples (record_latencies m xs)) =
         take (latency_sample_count m) (latency_samples m) @
           take (MAX_LATENCY_SAMPLES - latency_sample_count m) xs"
  using assms unfolding record_latencies_def
proof (induction xs arbitrary: m)
  case Nil
  then show ?case by simp
next
  case (Cons v xs)
  let ?m' = "benchmark_record_latency m v"
  have inv': "metrics_inv ?m'" by (rule metrics_inv_record [OF Cons.prems])
  have len: "length (latency_samples m) = MAX_LATENCY_SAMPLES"
    and cnt: "latency_sample_count m \<le> MAX_LATENCY_SAMPLES"
    using Cons.prems by (simp_all add: metrics_inv_def)
  show ?case
  proof (cases "latency_sample_count m < MAX_LATENCY_SAMPLES")
    case True
    then have c': "latency_sample_count ?m' = latency_sample_count m + 1"
      by (simp add: record_latency_count)
    have "MAX_LATENCY_SAMPLES - latency_sample_count m =
            Suc (MAX_LATENCY_SAMPLES - latency_sample_count ?m')"
      using True c' by simp
    then show ?thesis
      using Cons.IH [OF inv'] record_latency_stored [OF len cnt, of v] True
      by simp
  next
    case False
    then have c': "latency_sample_count ?m' = latency_sample_count m"
      by (simp add: record_latency_count)
    show ?thesis
      using Cons.IH [OF inv'] record_latency_stored [OF len cnt, of v] False c'
      by simp
  qed
qed

subsection \<open>The running sum and the sample cap\<close>

text \<open>
  In a record that the drivers fill, the running sum is the sum of the stored samples:
  the guard of the drivers lets no call through once the array is full.
\<close>

definition sum_of_stored :: "benchmark_metrics \<Rightarrow> bool" where
  "sum_of_stored m \<longleftrightarrow>
     metrics_inv m \<and>
     total_latency_ns m = sum_list (take (latency_sample_count m) (latency_samples m))"

lemma sum_of_stored_init: "sum_of_stored benchmark_metrics_init"
  by (simp add: sum_of_stored_def metrics_inv_init) (simp add: benchmark_metrics_init_def)

lemma sum_of_stored_record:
  assumes "sum_of_stored m" and "latency_sample_count m < MAX_LATENCY_SAMPLES"
  shows "sum_of_stored (benchmark_record_latency m v)"
proof -
  from assms(1) have inv: "metrics_inv m"
    and tot: "total_latency_ns m = sum_list (take (latency_sample_count m) (latency_samples m))"
    by (simp_all add: sum_of_stored_def)
  from inv have len: "length (latency_samples m) = MAX_LATENCY_SAMPLES"
    and cnt: "latency_sample_count m \<le> MAX_LATENCY_SAMPLES"
    by (simp_all add: metrics_inv_def)
  have "take (latency_sample_count (benchmark_record_latency m v))
             (latency_samples (benchmark_record_latency m v)) =
        take (latency_sample_count m) (latency_samples m) @ [v]"
    using record_latency_stored [OF len cnt, of v] assms(2) by simp
  with tot have "total_latency_ns (benchmark_record_latency m v) =
                   sum_list (take (latency_sample_count (benchmark_record_latency m v))
                                  (latency_samples (benchmark_record_latency m v)))"
    by (simp add: record_latency_total)
  with metrics_inv_record [OF inv, of v] show ?thesis by (simp add: sum_of_stored_def)
qed

lemma sum_of_stored_driver_command:
  assumes "sum_of_stored m"
  shows "sum_of_stored (driver_command b m c)"
proof -
  obtain v r n where c: "c = (v, r, n)" by (cases c)
  let ?m1 = "if b \<and> latency_sample_count m < MAX_LATENCY_SAMPLES
             then benchmark_record_latency m v else m"
  have m1: "sum_of_stored ?m1" using assms by (simp add: sum_of_stored_record)
  then have "sum_of_stored (?m1\<lparr> commands_processed := commands_processed ?m1 + 1,
                                   bytes_processed := bytes_processed ?m1 + n \<rparr>)"
    by (simp add: sum_of_stored_def metrics_inv_def)
  with m1 show ?thesis unfolding c driver_command_def Let_def by simp
qed

lemma sum_of_stored_foldl:
  "sum_of_stored m \<Longrightarrow> sum_of_stored (foldl (driver_command b) m cmds)"
  by (induction cmds arbitrary: m) (simp_all add: sum_of_stored_driver_command)

text \<open>
  Claim C5, as stated, fails. The count never exceeds \<open>MAX_LATENCY_SAMPLES\<close>, but
  \<^verbatim>\<open>total_latency_ns += latency_ns\<close> stands outside the guard of the store, next to the
  updates of minimum and maximum. After 10001 calls with a latency of 1 ns on an
  initialised record, 10000 samples are stored, their sum is 10000, and
  \<^verbatim>\<open>total_latency_ns\<close> is 10001: the latency of the dropped sample was added all the same.
\<close>

theorem record_latency_adds_dropped_sample:
  "(let m = record_latencies benchmark_metrics_init (replicate 10001 1)
    in latency_sample_count m = MAX_LATENCY_SAMPLES \<and>
       sum_list (take (latency_sample_count m) (latency_samples m)) = 10000 \<and>
       total_latency_ns m = 10001)"
proof -
  let ?m = "record_latencies benchmark_metrics_init (replicate 10001 1)"
  have c0: "latency_sample_count benchmark_metrics_init = 0"
    by (simp add: benchmark_metrics_init_def)
  have cnt: "latency_sample_count ?m = MAX_LATENCY_SAMPLES"
    by (simp add: record_latencies_count c0) (simp add: MAX_LATENCY_SAMPLES_def)
  have "take (latency_sample_count ?m) (latency_samples ?m) =
          take MAX_LATENCY_SAMPLES (replicate 10001 (1::64 word))"
    using record_latencies_stored [OF metrics_inv_init, of "replicate 10001 1"]
    by (simp add: c0)
  then have st: "take (latency_sample_count ?m) (latency_samples ?m) = replicate 10000 (1::64 word)"
    by (simp add: MAX_LATENCY_SAMPLES_def)
  have tot: "total_latency_ns ?m = 10001"
    by (simp add: record_latencies_total benchmark_metrics_init_def sum_list_replicate)
  show ?thesis
    unfolding Let_def using cnt st tot by (simp add: sum_list_replicate)
qed

text \<open>
  Claim C5, amended. After any sequence of calls on an initialised record the count is
  the number of calls or \<open>MAX_LATENCY_SAMPLES\<close>, whichever is less, the stored samples
  are the first \<open>MAX_LATENCY_SAMPLES\<close> latencies, and \<^verbatim>\<open>total_latency_ns\<close> is the sum of
  the stored samples plus the sum of all latencies passed in after the cap was reached
  (in 64-bit arithmetic): the function itself adds every latency. In the records that
  the drivers fill, where every call is guarded by
  \<^verbatim>\<open>latency_sample_count < MAX_LATENCY_SAMPLES\<close>, no latency is passed in after the cap,
  and \<^verbatim>\<open>total_latency_ns\<close> is the sum of the stored samples alone.
\<close>

theorem record_latency_total_counts_every_call:
  "(let m = record_latencies benchmark_metrics_init xs
    in latency_sample_count m = min (length xs) MAX_LATENCY_SAMPLES \<and>
       take (latency_sample_count m) (latency_samples m) = take MAX_LATENCY_SAMPLES xs \<and>
       total_latency_ns m =
         sum_list (take (latency_sample_count m) (latency_samples m)) +
         sum_list (drop MAX_LATENCY_SAMPLES xs)) \<and>
   (let d = driver_commands sample_latency cmds
    in latency_sample_count d \<le> MAX_LATENCY_SAMPLES \<and>
       total_latency_ns d = sum_list (take (latency_sample_count d) (latency_samples d)))"
proof -
  let ?m = "record_latencies benchmark_metrics_init xs"
  have c0: "latency_sample_count benchmark_metrics_init = 0"
    and t0: "total_latency_ns benchmark_metrics_init = 0"
    by (simp_all add: benchmark_metrics_init_def)
  have cnt: "latency_sample_count ?m = min (length xs) MAX_LATENCY_SAMPLES"
    by (simp add: record_latencies_count c0)
  have st: "take (latency_sample_count ?m) (latency_samples ?m) = take MAX_LATENCY_SAMPLES xs"
    using record_latencies_stored [OF metrics_inv_init, of xs] by (simp add: c0)
  have "sum_list xs = sum_list (take MAX_LATENCY_SAMPLES xs @ drop MAX_LATENCY_SAMPLES xs)"
    by simp
  also have "\<dots> = sum_list (take MAX_LATENCY_SAMPLES xs) + sum_list (drop MAX_LATENCY_SAMPLES xs)"
    by (rule sum_list_append)
  finally have tot: "total_latency_ns ?m =
      sum_list (take (latency_sample_count ?m) (latency_samples ?m)) +
      sum_list (drop MAX_LATENCY_SAMPLES xs)"
    by (simp add: record_latencies_total t0 st)
  have "sum_of_stored (driver_commands sample_latency cmds)"
    unfolding driver_commands_def by (rule sum_of_stored_foldl [OF sum_of_stored_init])
  then have d: "latency_sample_count (driver_commands sample_latency cmds) \<le> MAX_LATENCY_SAMPLES"
      "total_latency_ns (driver_commands sample_latency cmds) =
         sum_list (take (latency_sample_count (driver_commands sample_latency cmds))
                        (latency_samples (driver_commands sample_latency cmds)))"
    by (simp_all add: sum_of_stored_def metrics_inv_def)
  show ?thesis unfolding Let_def using cnt st tot d by simp
qed

theorem record_latency_total_counts_every_call_witness:
  "latency_sample_count (record_latencies benchmark_metrics_init (replicate 10001 1)) = 10000 \<and>
   total_latency_ns (record_latencies benchmark_metrics_init (replicate 10001 1)) = 10000 + 1 \<and>
   latency_sample_count (driver_commands True (replicate 10001 (1, 1, 4))) \<le> 10000 \<and>
   total_latency_ns (driver_commands True (replicate 10001 (1, 1, 4))) =
     sum_list (take (latency_sample_count (driver_commands True (replicate 10001 (1, 1, 4))))
                    (latency_samples (driver_commands True (replicate 10001 (1, 1, 4)))))"
proof -
  let ?m = "record_latencies benchmark_metrics_init (replicate 10001 1)"
  let ?d = "driver_commands True (replicate 10001 (1, 1, 4))"
  note t = record_latency_total_counts_every_call
             [of "replicate 10001 1" True "replicate 10001 (1, 1, 4)", unfolded Let_def]
  from t have "latency_sample_count ?m = min (length (replicate 10001 (1::64 word))) MAX_LATENCY_SAMPLES"
    by blast
  then have c: "latency_sample_count ?m = 10000"
    by (simp add: MAX_LATENCY_SAMPLES_def)
  from t have "take (latency_sample_count ?m) (latency_samples ?m) =
                 take MAX_LATENCY_SAMPLES (replicate 10001 1)"
    by blast
  then have st: "take (latency_sample_count ?m) (latency_samples ?m) = replicate 10000 1"
    by (simp add: MAX_LATENCY_SAMPLES_def)
  from t have "total_latency_ns ?m =
      sum_list (take (latency_sample_count ?m) (latency_samples ?m)) +
      sum_list (drop MAX_LATENCY_SAMPLES (replicate 10001 1))"
    by blast
  then have tot: "total_latency_ns ?m = 10000 + 1"
    unfolding st by (simp add: MAX_LATENCY_SAMPLES_def sum_list_replicate)
  from t have "latency_sample_count ?d \<le> MAX_LATENCY_SAMPLES"
    and d2: "total_latency_ns ?d = sum_list (take (latency_sample_count ?d) (latency_samples ?d))"
    by blast+
  then have d: "latency_sample_count ?d \<le> 10000"
    by (simp add: MAX_LATENCY_SAMPLES_def)
  from c tot d d2 show ?thesis by blast
qed

subsection \<open>Percentiles\<close>

lemma compute_percentiles_sorted_prefix:
  assumes "metrics_inv m" and "0 < latency_sample_count m" and "i < latency_sample_count m"
  shows "latency_samples (benchmark_compute_percentiles m) ! i =
           sort (take (latency_sample_count m) (latency_samples m)) ! i"
  using assms
  by (simp add: benchmark_compute_percentiles_def Let_def nth_append metrics_inv_def)

lemma sorted_prefix_bounds:
  assumes "metrics_inv m" and "i < latency_sample_count m"
  shows "min_latency_ns m \<le> sort (take (latency_sample_count m) (latency_samples m)) ! i \<and>
         sort (take (latency_sample_count m) (latency_samples m)) ! i \<le> max_latency_ns m"
proof -
  let ?s = "sort (take (latency_sample_count m) (latency_samples m))"
  have "length ?s = latency_sample_count m"
    using assms(1) by (simp add: metrics_inv_def)
  with assms(2) have "?s ! i \<in> set ?s" by (metis nth_mem)
  then have "?s ! i \<in> set (take (latency_sample_count m) (latency_samples m))" by simp
  with assms(1) show ?thesis unfolding metrics_inv_def by blast
qed

text \<open>
  Claim C7. On a record filled by \<^verbatim>\<open>benchmark_record_latency\<close> from an initialised one,
  with at least 100 samples stored, \<^verbatim>\<open>benchmark_compute_percentiles\<close> leaves the stored
  samples sorted ascending (the same samples, reordered), sets p50, p90 and p99 to the
  entries at \<open>count * P div 100\<close>, and these satisfy
  \<open>min \<le> p50 \<le> p90 \<le> p99 \<le> max\<close>.
\<close>

theorem compute_percentiles_ordered:
  assumes "m = record_latencies benchmark_metrics_init xs"
      and "100 \<le> latency_sample_count m"
  shows "(let r = benchmark_compute_percentiles m; n = latency_sample_count m
          in sorted (take n (latency_samples r)) \<and>
             mset (take n (latency_samples r)) = mset (take n (latency_samples m)) \<and>
             p50_latency_ns r = latency_samples r ! (n * 50 div 100) \<and>
             p90_latency_ns r = latency_samples r ! (n * 90 div 100) \<and>
             p99_latency_ns r = latency_samples r ! (n * 99 div 100) \<and>
             p50_latency_ns r \<le> p90_latency_ns r \<and>
             p90_latency_ns r \<le> p99_latency_ns r \<and>
             min_latency_ns r \<le> p50_latency_ns r \<and>
             p99_latency_ns r \<le> max_latency_ns r)"
proof -
  let ?n = "latency_sample_count m"
  let ?r = "benchmark_compute_percentiles m"
  let ?s = "sort (take ?n (latency_samples m))"
  have inv: "metrics_inv m"
    using assms(1) metrics_inv_record_latencies [OF metrics_inv_init] by simp
  have pos: "0 < ?n" using assms(2) by simp
  have len: "length ?s = ?n" using inv by (simp add: metrics_inv_def)
  have i50: "?n * 50 div 100 < ?n" and i90: "?n * 90 div 100 < ?n"
    and i99: "?n * 99 div 100 < ?n"
    using pos by simp_all
  have le1: "?n * 50 div 100 \<le> ?n * 90 div 100" and le2: "?n * 90 div 100 \<le> ?n * 99 div 100"
    by (simp_all add: div_le_mono)
  have samples: "latency_samples ?r = ?s @ drop ?n (latency_samples m)"
    using pos by (simp add: benchmark_compute_percentiles_def Let_def)
  have pre: "take ?n (latency_samples ?r) = ?s"
    using len by (simp add: samples)
  have p50: "p50_latency_ns ?r = latency_samples ?r ! (?n * 50 div 100)"
    and p90: "p90_latency_ns ?r = latency_samples ?r ! (?n * 90 div 100)"
    and p99: "p99_latency_ns ?r = latency_samples ?r ! (?n * 99 div 100)"
    using pos by (simp_all add: benchmark_compute_percentiles_def Let_def)
  have v50: "latency_samples ?r ! (?n * 50 div 100) = ?s ! (?n * 50 div 100)"
    by (rule compute_percentiles_sorted_prefix [OF inv pos i50])
  have v90: "latency_samples ?r ! (?n * 90 div 100) = ?s ! (?n * 90 div 100)"
    by (rule compute_percentiles_sorted_prefix [OF inv pos i90])
  have v99: "latency_samples ?r ! (?n * 99 div 100) = ?s ! (?n * 99 div 100)"
    by (rule compute_percentiles_sorted_prefix [OF inv pos i99])
  have o1: "?s ! (?n * 50 div 100) \<le> ?s ! (?n * 90 div 100)"
    by (rule sorted_nth_mono) (use le1 i90 len in simp_all)
  have o2: "?s ! (?n * 90 div 100) \<le> ?s ! (?n * 99 div 100)"
    by (rule sorted_nth_mono) (use le2 i99 len in simp_all)
  have mn: "min_latency_ns ?r = min_latency_ns m" and mx: "max_latency_ns ?r = max_latency_ns m"
    by (simp_all add: benchmark_compute_percentiles_def Let_def)
  have b50: "min_latency_ns m \<le> ?s ! (?n * 50 div 100)"
    using sorted_prefix_bounds [OF inv i50] by simp
  have b99: "?s ! (?n * 99 div 100) \<le> max_latency_ns m"
    using sorted_prefix_bounds [OF inv i99] by simp
  show ?thesis
    unfolding Let_def
    using pre p50 p90 p99 v50 v90 v99 o1 o2 mn mx b50 b99 by simp
qed

theorem compute_percentiles_ordered_witness:
  "100 \<le> latency_sample_count (record_latencies benchmark_metrics_init (replicate 100 7)) \<and>
   (let r = benchmark_compute_percentiles (record_latencies benchmark_metrics_init (replicate 100 7))
    in p50_latency_ns r \<le> p90_latency_ns r \<and> p90_latency_ns r \<le> p99_latency_ns r \<and>
       min_latency_ns r \<le> p50_latency_ns r \<and> p99_latency_ns r \<le> max_latency_ns r)"
proof -
  have h: "100 \<le> latency_sample_count (record_latencies benchmark_metrics_init (replicate 100 7))"
    by (simp add: record_latencies_count benchmark_metrics_init_def MAX_LATENCY_SAMPLES_def)
  show ?thesis
    unfolding Let_def
    using h compute_percentiles_ordered [OF refl h, unfolded Let_def] by blast
qed

section \<open>RESPB wire format (include/respb.h)\<close>

text \<open>
  The opcode constants of \<^verbatim>\<open>respb.h\<close>, one abbreviation per \<^verbatim>\<open>#define\<close>, in the
  header's order. Opcodes and mux ids are \<^verbatim>\<open>uint16_t\<close>: 16-bit words.
\<close>

type_synonym byte = "8 word"

abbreviation RESPB_OP_GET :: "16 word" where "RESPB_OP_GET \<equiv> 0x0000"
abbreviation RESPB_OP_SET :: "16 word" where "RESPB_OP_SET \<equiv> 0x0001"
abbreviation RESPB_OP_APPEND :: "16 word" where "RESPB_OP_APPEND \<equiv> 0x0002"
abbreviation RESPB_OP_DECR :: "16 word" where "RESPB_OP_DECR \<equiv> 0x0003"
abbreviation RESPB_OP_DECRBY :: "16 word" where "RESPB_OP_DECRBY \<equiv> 0x0004"
abbreviation RESPB_OP_GETDEL :: "16 word" where "RESPB_OP_GETDEL \<equiv> 0x0005"
abbreviation RESPB_OP_GETEX :: "16 word" where "RESPB_OP_GETEX \<equiv> 0x0006"
abbreviation RESPB_OP_GETRANGE :: "16 word" where "RESPB_OP_GETRANGE \<equiv> 0x0007"
abbreviation RESPB_OP_GETSET :: "16 word" where "RESPB_OP_GETSET \<equiv> 0x0008"
abbreviation RESPB_OP_INCR :: "16 word" where "RESPB_OP_INCR \<equiv> 0x0009"
abbreviation RESPB_OP_INCRBY :: "16 word" where "RESPB_OP_INCRBY \<equiv> 0x000A"
abbreviation RESPB_OP_INCRBYFLOAT :: "16 word" where "RESPB_OP_INCRBYFLOAT \<equiv> 0x000B"
abbreviation RESPB_OP_MGET :: "16 word" where "RESPB_OP_MGET \<equiv> 0x000C"
abbreviation RESPB_OP_MSET :: "16 word" where "RESPB_OP_MSET \<equiv> 0x000D"
abbreviation RESPB_OP_MSETNX :: "16 word" where "RESPB_OP_MSETNX \<equiv> 0x000E"
abbreviation RESPB_OP_PSETEX :: "16 word" where "RESPB_OP_PSETEX \<equiv> 0x000F"
abbreviation RESPB_OP_SETEX :: "16 word" where "RESPB_OP_SETEX \<equiv> 0x0010"
abbreviation RESPB_OP_SETNX :: "16 word" where "RESPB_OP_SETNX \<equiv> 0x0011"
abbreviation RESPB_OP_SETRANGE :: "16 word" where "RESPB_OP_SETRANGE \<equiv> 0x0012"
abbreviation RESPB_OP_STRLEN :: "16 word" where "RESPB_OP_STRLEN \<equiv> 0x0013"
abbreviation RESPB_OP_SUBSTR :: "16 word" where "RESPB_OP_SUBSTR \<equiv> 0x0014"
abbreviation RESPB_OP_LCS :: "16 word" where "RESPB_OP_LCS \<equiv> 0x0015"
abbreviation RESPB_OP_DELIFEQ :: "16 word" where "RESPB_OP_DELIFEQ \<equiv> 0x0016"
abbreviation RESPB_OP_LPUSH :: "16 word" where "RESPB_OP_LPUSH \<equiv> 0x0040"
abbreviation RESPB_OP_RPUSH :: "16 word" where "RESPB_OP_RPUSH \<equiv> 0x0041"
abbreviation RESPB_OP_LPOP :: "16 word" where "RESPB_OP_LPOP \<equiv> 0x0042"
abbreviation RESPB_OP_RPOP :: "16 word" where "RESPB_OP_RPOP \<equiv> 0x0043"
abbreviation RESPB_OP_LLEN :: "16 word" where "RESPB_OP_LLEN \<equiv> 0x0044"
abbreviation RESPB_OP_LRANGE :: "16 word" where "RESPB_OP_LRANGE \<equiv> 0x0045"
abbreviation RESPB_OP_LINDEX :: "16 word" where "RESPB_OP_LINDEX \<equiv> 0x0046"
abbreviation RESPB_OP_LSET :: "16 word" where "RESPB_OP_LSET \<equiv> 0x0047"
abbreviation RESPB_OP_LREM :: "16 word" where "RESPB_OP_LREM \<equiv> 0x0048"
abbreviation RESPB_OP_LTRIM :: "16 word" where "RESPB_OP_LTRIM \<equiv> 0x0049"
abbreviation RESPB_OP_LINSERT :: "16 word" where "RESPB_OP_LINSERT \<equiv> 0x004A"
abbreviation RESPB_OP_LPUSHX :: "16 word" where "RESPB_OP_LPUSHX \<equiv> 0x004B"
abbreviation RESPB_OP_RPUSHX :: "16 word" where "RESPB_OP_RPUSHX \<equiv> 0x004C"
abbreviation RESPB_OP_RPOPLPUSH :: "16 word" where "RESPB_OP_RPOPLPUSH \<equiv> 0x004D"
abbreviation RESPB_OP_LMOVE :: "16 word" where "RESPB_OP_LMOVE \<equiv> 0x004E"
abbreviation RESPB_OP_LMPOP :: "16 word" where "RESPB_OP_LMPOP \<equiv> 0x004F"
abbreviation RESPB_OP_LPOS :: "16 word" where "RESPB_OP_LPOS \<equiv> 0x0050"
abbreviation RESPB_OP_BLPOP :: "16 word" where "RESPB_OP_BLPOP \<equiv> 0x0051"
abbreviation RESPB_OP_BRPOP :: "16 word" where "RESPB_OP_BRPOP \<equiv> 0x0052"
abbreviation RESPB_OP_BRPOPLPUSH :: "16 word" where "RESPB_OP_BRPOPLPUSH \<equiv> 0x0053"
abbreviation RESPB_OP_BLMOVE :: "16 word" where "RESPB_OP_BLMOVE \<equiv> 0x0054"
abbreviation RESPB_OP_BLMPOP :: "16 word" where "RESPB_OP_BLMPOP \<equiv> 0x0055"
abbreviation RESPB_OP_SADD :: "16 word" where "RESPB_OP_SADD \<equiv> 0x0080"
abbreviation RESPB_OP_SREM :: "16 word" where "RESPB_OP_SREM \<equiv> 0x0081"
abbreviation RESPB_OP_SMEMBERS :: "16 word" where "RESPB_OP_SMEMBERS \<equiv> 0x0082"
abbreviation RESPB_OP_SISMEMBER :: "16 word" where "RESPB_OP_SISMEMBER \<equiv> 0x0083"
abbreviation RESPB_OP_SCARD :: "16 word" where "RESPB_OP_SCARD \<equiv> 0x0084"
abbreviation RESPB_OP_SPOP :: "16 word" where "RESPB_OP_SPOP \<equiv> 0x0085"
abbreviation RESPB_OP_SRANDMEMBER :: "16 word" where "RESPB_OP_SRANDMEMBER \<equiv> 0x0086"
abbreviation RESPB_OP_SINTER :: "16 word" where "RESPB_OP_SINTER \<equiv> 0x0087"
abbreviation RESPB_OP_SINTERSTORE :: "16 word" where "RESPB_OP_SINTERSTORE \<equiv> 0x0088"
abbreviation RESPB_OP_SUNION :: "16 word" where "RESPB_OP_SUNION \<equiv> 0x0089"
abbreviation RESPB_OP_SUNIONSTORE :: "16 word" where "RESPB_OP_SUNIONSTORE \<equiv> 0x008A"
abbreviation RESPB_OP_SDIFF :: "16 word" where "RESPB_OP_SDIFF \<equiv> 0x008B"
abbreviation RESPB_OP_SDIFFSTORE :: "16 word" where "RESPB_OP_SDIFFSTORE \<equiv> 0x008C"
abbreviation RESPB_OP_SMOVE :: "16 word" where "RESPB_OP_SMOVE \<equiv> 0x008D"
abbreviation RESPB_OP_SSCAN :: "16 word" where "RESPB_OP_SSCAN \<equiv> 0x008E"
abbreviation RESPB_OP_SINTERCARD :: "16 word" where "RESPB_OP_SINTERCARD \<equiv> 0x008F"
abbreviation RESPB_OP_SMISMEMBER :: "16 word" where "RESPB_OP_SMISMEMBER \<equiv> 0x0090"
abbreviation RESPB_OP_ZADD :: "16 word" where "RESPB_OP_ZADD \<equiv> 0x00C0"
abbreviation RESPB_OP_ZREM :: "16 word" where "RESPB_OP_ZREM \<equiv> 0x00C1"
abbreviation RESPB_OP_ZCARD :: "16 word" where "RESPB_OP_ZCARD \<equiv> 0x00C2"
abbreviation RESPB_OP_ZCOUNT :: "16 word" where "RESPB_OP_ZCOUNT \<equiv> 0x00C3"
abbreviation RESPB_OP_ZINCRBY :: "16 word" where "RESPB_OP_ZINCRBY \<equiv> 0x00C4"
abbreviation RESPB_OP_ZRANGE :: "16 word" where "RESPB_OP_ZRANGE \<equiv> 0x00C5"
abbreviation RESPB_OP_ZRANGEBYSCORE :: "16 word" where "RESPB_OP_ZRANGEBYSCORE \<equiv> 0x00C6"
abbreviation RESPB_OP_ZRANGEBYLEX :: "16 word" where "RESPB_OP_ZRANGEBYLEX \<equiv> 0x00C7"
abbreviation RESPB_OP_ZREVRANGE :: "16 word" where "RESPB_OP_ZREVRANGE \<equiv> 0x00C8"
abbreviation RESPB_OP_ZREVRANGEBYSCORE :: "16 word" where "RESPB_OP_ZREVRANGEBYSCORE \<equiv> 0x00C9"
abbreviation RESPB_OP_ZREVRANGEBYLEX :: "16 word" where "RESPB_OP_ZREVRANGEBYLEX \<equiv> 0x00CA"
abbreviation RESPB_OP_ZRANK :: "16 word" where "RESPB_OP_ZRANK \<equiv> 0x00CB"
abbreviation RESPB_OP_ZREVRANK :: "16 word" where "RESPB_OP_ZREVRANK \<equiv> 0x00CC"
abbreviation RESPB_OP_ZSCORE :: "16 word" where "RESPB_OP_ZSCORE \<equiv> 0x00CD"
abbreviation RESPB_OP_ZMSCORE :: "16 word" where "RESPB_OP_ZMSCORE \<equiv> 0x00CE"
abbreviation RESPB_OP_ZREMRANGEBYRANK :: "16 word" where "RESPB_OP_ZREMRANGEBYRANK \<equiv> 0x00CF"
abbreviation RESPB_OP_ZREMRANGEBYSCORE :: "16 word" where "RESPB_OP_ZREMRANGEBYSCORE \<equiv> 0x00D0"
abbreviation RESPB_OP_ZREMRANGEBYLEX :: "16 word" where "RESPB_OP_ZREMRANGEBYLEX \<equiv> 0x00D1"
abbreviation RESPB_OP_ZLEXCOUNT :: "16 word" where "RESPB_OP_ZLEXCOUNT \<equiv> 0x00D2"
abbreviation RESPB_OP_ZPOPMIN :: "16 word" where "RESPB_OP_ZPOPMIN \<equiv> 0x00D3"
abbreviation RESPB_OP_ZPOPMAX :: "16 word" where "RESPB_OP_ZPOPMAX \<equiv> 0x00D4"
abbreviation RESPB_OP_BZPOPMIN :: "16 word" where "RESPB_OP_BZPOPMIN \<equiv> 0x00D5"
abbreviation RESPB_OP_BZPOPMAX :: "16 word" where "RESPB_OP_BZPOPMAX \<equiv> 0x00D6"
abbreviation RESPB_OP_ZRANDMEMBER :: "16 word" where "RESPB_OP_ZRANDMEMBER \<equiv> 0x00D7"
abbreviation RESPB_OP_ZDIFF :: "16 word" where "RESPB_OP_ZDIFF \<equiv> 0x00D8"
abbreviation RESPB_OP_ZDIFFSTORE :: "16 word" where "RESPB_OP_ZDIFFSTORE \<equiv> 0x00D9"
abbreviation RESPB_OP_ZINTER :: "16 word" where "RESPB_OP_ZINTER \<equiv> 0x00DA"
abbreviation RESPB_OP_ZINTERSTORE :: "16 word" where "RESPB_OP_ZINTERSTORE \<equiv> 0x00DB"
abbreviation RESPB_OP_ZINTERCARD :: "16 word" where "RESPB_OP_ZINTERCARD \<equiv> 0x00DC"
abbreviation RESPB_OP_ZUNION :: "16 word" where "RESPB_OP_ZUNION \<equiv> 0x00DD"
abbreviation RESPB_OP_ZUNIONSTORE :: "16 word" where "RESPB_OP_ZUNIONSTORE \<equiv> 0x00DE"
abbreviation RESPB_OP_ZSCAN :: "16 word" where "RESPB_OP_ZSCAN \<equiv> 0x00DF"
abbreviation RESPB_OP_ZMPOP :: "16 word" where "RESPB_OP_ZMPOP \<equiv> 0x00E0"
abbreviation RESPB_OP_BZMPOP :: "16 word" where "RESPB_OP_BZMPOP \<equiv> 0x00E1"
abbreviation RESPB_OP_ZRANGESTORE :: "16 word" where "RESPB_OP_ZRANGESTORE \<equiv> 0x00E2"
abbreviation RESPB_OP_HSET :: "16 word" where "RESPB_OP_HSET \<equiv> 0x0100"
abbreviation RESPB_OP_HGET :: "16 word" where "RESPB_OP_HGET \<equiv> 0x0101"
abbreviation RESPB_OP_HMSET :: "16 word" where "RESPB_OP_HMSET \<equiv> 0x0102"
abbreviation RESPB_OP_HMGET :: "16 word" where "RESPB_OP_HMGET \<equiv> 0x0103"
abbreviation RESPB_OP_HGETALL :: "16 word" where "RESPB_OP_HGETALL \<equiv> 0x0104"
abbreviation RESPB_OP_HDEL :: "16 word" where "RESPB_OP_HDEL \<equiv> 0x0105"
abbreviation RESPB_OP_HEXISTS :: "16 word" where "RESPB_OP_HEXISTS \<equiv> 0x0106"
abbreviation RESPB_OP_HINCRBY :: "16 word" where "RESPB_OP_HINCRBY \<equiv> 0x0107"
abbreviation RESPB_OP_HINCRBYFLOAT :: "16 word" where "RESPB_OP_HINCRBYFLOAT \<equiv> 0x0108"
abbreviation RESPB_OP_HKEYS :: "16 word" where "RESPB_OP_HKEYS \<equiv> 0x0109"
abbreviation RESPB_OP_HVALS :: "16 word" where "RESPB_OP_HVALS \<equiv> 0x010A"
abbreviation RESPB_OP_HLEN :: "16 word" where "RESPB_OP_HLEN \<equiv> 0x010B"
abbreviation RESPB_OP_HSETNX :: "16 word" where "RESPB_OP_HSETNX \<equiv> 0x010C"
abbreviation RESPB_OP_HSTRLEN :: "16 word" where "RESPB_OP_HSTRLEN \<equiv> 0x010D"
abbreviation RESPB_OP_HSCAN :: "16 word" where "RESPB_OP_HSCAN \<equiv> 0x010E"
abbreviation RESPB_OP_HRANDFIELD :: "16 word" where "RESPB_OP_HRANDFIELD \<equiv> 0x010F"
abbreviation RESPB_OP_HEXPIRE :: "16 word" where "RESPB_OP_HEXPIRE \<equiv> 0x0110"
abbreviation RESPB_OP_HEXPIREAT :: "16 word" where "RESPB_OP_HEXPIREAT \<equiv> 0x0111"
abbreviation RESPB_OP_HEXPIRETIME :: "16 word" where "RESPB_OP_HEXPIRETIME \<equiv> 0x0112"
abbreviation RESPB_OP_HPEXPIRE :: "16 word" where "RESPB_OP_HPEXPIRE \<equiv> 0x0113"
abbreviation RESPB_OP_HPEXPIREAT :: "16 word" where "RESPB_OP_HPEXPIREAT \<equiv> 0x0114"
abbreviation RESPB_OP_HPEXPIRETIME :: "16 word" where "RESPB_OP_HPEXPIRETIME \<equiv> 0x0115"
abbreviation RESPB_OP_HPTTL :: "16 word" where "RESPB_OP_HPTTL \<equiv> 0x0116"
abbreviation RESPB_OP_HTTL :: "16 word" where "RESPB_OP_HTTL \<equiv> 0x0117"
abbreviation RESPB_OP_HPERSIST :: "16 word" where "RESPB_OP_HPERSIST \<equiv> 0x0118"
abbreviation RESPB_OP_HGETEX :: "16 word" where "RESPB_OP_HGETEX \<equiv> 0x0119"
abbreviation RESPB_OP_HSETEX :: "16 word" where "RESPB_OP_HSETEX \<equiv> 0x011A"
abbreviation RESPB_OP_SETBIT :: "16 word" where "RESPB_OP_SETBIT \<equiv> 0x0140"
abbreviation RESPB_OP_GETBIT :: "16 word" where "RESPB_OP_GETBIT \<equiv> 0x0141"
abbreviation RESPB_OP_BITCOUNT :: "16 word" where "RESPB_OP_BITCOUNT \<equiv> 0x0142"
abbreviation RESPB_OP_BITPOS :: "16 word" where "RESPB_OP_BITPOS \<equiv> 0x0143"
abbreviation RESPB_OP_BITOP :: "16 word" where "RESPB_OP_BITOP \<equiv> 0x0144"
abbreviation RESPB_OP_BITFIELD :: "16 word" where "RESPB_OP_BITFIELD \<equiv> 0x0145"
abbreviation RESPB_OP_BITFIELD_RO :: "16 word" where "RESPB_OP_BITFIELD_RO \<equiv> 0x0146"
abbreviation RESPB_OP_PFADD :: "16 word" where "RESPB_OP_PFADD \<equiv> 0x0160"
abbreviation RESPB_OP_PFCOUNT :: "16 word" where "RESPB_OP_PFCOUNT \<equiv> 0x0161"
abbreviation RESPB_OP_PFMERGE :: "16 word" where "RESPB_OP_PFMERGE \<equiv> 0x0162"
abbreviation RESPB_OP_PFDEBUG :: "16 word" where "RESPB_OP_PFDEBUG \<equiv> 0x0163"
abbreviation RESPB_OP_PFSELFTEST :: "16 word" where "RESPB_OP_PFSELFTEST \<equiv> 0x0164"
abbreviation RESPB_OP_GEOADD :: "16 word" where "RESPB_OP_GEOADD \<equiv> 0x0180"
abbreviation RESPB_OP_GEODIST :: "16 word" where "RESPB_OP_GEODIST \<equiv> 0x0181"
abbreviation RESPB_OP_GEOHASH :: "16 word" where "RESPB_OP_GEOHASH \<equiv> 0x0182"
abbreviation RESPB_OP_GEOPOS :: "16 word" where "RESPB_OP_GEOPOS \<equiv> 0x0183"
abbreviation RESPB_OP_GEORADIUS :: "16 word" where "RESPB_OP_GEORADIUS \<equiv> 0x0184"
abbreviation RESPB_OP_GEORADIUSBYMEMBER :: "16 word" where "RESPB_OP_GEORADIUSBYMEMBER \<equiv> 0x0185"
abbreviation RESPB_OP_GEORADIUS_RO :: "16 word" where "RESPB_OP_GEORADIUS_RO \<equiv> 0x0186"
abbreviation RESPB_OP_GEORADIUSBYMEMBER_RO :: "16 word" where "RESPB_OP_GEORADIUSBYMEMBER_RO \<equiv> 0x0187"
abbreviation RESPB_OP_GEOSEARCH :: "16 word" where "RESPB_OP_GEOSEARCH \<equiv> 0x0188"
abbreviation RESPB_OP_GEOSEARCHSTORE :: "16 word" where "RESPB_OP_GEOSEARCHSTORE \<equiv> 0x0189"
abbreviation RESPB_OP_XADD :: "16 word" where "RESPB_OP_XADD \<equiv> 0x01C0"
abbreviation RESPB_OP_XLEN :: "16 word" where "RESPB_OP_XLEN \<equiv> 0x01C1"
abbreviation RESPB_OP_XRANGE :: "16 word" where "RESPB_OP_XRANGE \<equiv> 0x01C2"
abbreviation RESPB_OP_XREVRANGE :: "16 word" where "RESPB_OP_XREVRANGE \<equiv> 0x01C3"
abbreviation RESPB_OP_XREAD :: "16 word" where "RESPB_OP_XREAD \<equiv> 0x01C4"
abbreviation RESPB_OP_XREADGROUP :: "16 word" where "RESPB_OP_XREADGROUP \<equiv> 0x01C5"
abbreviation RESPB_OP_XDEL :: "16 word" where "RESPB_OP_XDEL \<equiv> 0x01C6"
abbreviation RESPB_OP_XTRIM :: "16 word" where "RESPB_OP_XTRIM \<equiv> 0x01C7"
abbreviation RESPB_OP_XACK :: "16 word" where "RESPB_OP_XACK \<equiv> 0x01C8"
abbreviation RESPB_OP_XPENDING :: "16 word" where "RESPB_OP_XPENDING \<equiv> 0x01C9"
abbreviation RESPB_OP_XCLAIM :: "16 word" where "RESPB_OP_XCLAIM \<equiv> 0x01CA"
abbreviation RESPB_OP_XAUTOCLAIM :: "16 word" where "RESPB_OP_XAUTOCLAIM \<equiv> 0x01CB"
abbreviation RESPB_OP_XINFO :: "16 word" where "RESPB_OP_XINFO \<equiv> 0x01CC"
abbreviation RESPB_OP_XGROUP :: "16 word" where "RESPB_OP_XGROUP \<equiv> 0x01CD"
abbreviation RESPB_OP_XSETID :: "16 word" where "RESPB_OP_XSETID \<equiv> 0x01CE"
abbreviation RESPB_OP_DEL :: "16 word" where "RESPB_OP_DEL \<equiv> 0x02C0"
abbreviation RESPB_OP_UNLINK :: "16 word" where "RESPB_OP_UNLINK \<equiv> 0x02C1"
abbreviation RESPB_OP_EXISTS :: "16 word" where "RESPB_OP_EXISTS \<equiv> 0x02C2"
abbreviation RESPB_OP_EXPIRE :: "16 word" where "RESPB_OP_EXPIRE \<equiv> 0x02C3"
abbreviation RESPB_OP_EXPIREAT :: "16 word" where "RESPB_OP_EXPIREAT \<equiv> 0x02C4"
abbreviation RESPB_OP_EXPIRETIME :: "16 word" where "RESPB_OP_EXPIRETIME \<equiv> 0x02C5"
abbreviation RESPB_OP_PEXPIRE :: "16 word" where "RESPB_OP_PEXPIRE \<equiv> 0x02C6"
abbreviation RESPB_OP_PEXPIREAT :: "16 word" where "RESPB_OP_PEXPIREAT \<equiv> 0x02C7"
abbreviation RESPB_OP_PEXPIRETIME :: "16 word" where "RESPB_OP_PEXPIRETIME \<equiv> 0x02C8"
abbreviation RESPB_OP_TTL :: "16 word" where "RESPB_OP_TTL \<equiv> 0x02C9"
abbreviation RESPB_OP_PTTL :: "16 word" where "RESPB_OP_PTTL \<equiv> 0x02CA"
abbreviation RESPB_OP_PERSIST :: "16 word" where "RESPB_OP_PERSIST \<equiv> 0x02CB"
abbreviation RESPB_OP_KEYS :: "16 word" where "RESPB_OP_KEYS \<equiv> 0x02CC"
abbreviation RESPB_OP_SCAN :: "16 word" where "RESPB_OP_SCAN \<equiv> 0x02CD"
abbreviation RESPB_OP_RANDOMKEY :: "16 word" where "RESPB_OP_RANDOMKEY \<equiv> 0x02CE"
abbreviation RESPB_OP_RENAME :: "16 word" where "RESPB_OP_RENAME \<equiv> 0x02CF"
abbreviation RESPB_OP_RENAMENX :: "16 word" where "RESPB_OP_RENAMENX \<equiv> 0x02D0"
abbreviation RESPB_OP_TYPE :: "16 word" where "RESPB_OP_TYPE \<equiv> 0x02D1"
abbreviation RESPB_OP_DUMP :: "16 word" where "RESPB_OP_DUMP \<equiv> 0x02D2"
abbreviation RESPB_OP_RESTORE :: "16 word" where "RESPB_OP_RESTORE \<equiv> 0x02D3"
abbreviation RESPB_OP_MIGRATE :: "16 word" where "RESPB_OP_MIGRATE \<equiv> 0x02D4"
abbreviation RESPB_OP_MOVE :: "16 word" where "RESPB_OP_MOVE \<equiv> 0x02D5"
abbreviation RESPB_OP_COPY :: "16 word" where "RESPB_OP_COPY \<equiv> 0x02D6"
abbreviation RESPB_OP_SORT :: "16 word" where "RESPB_OP_SORT \<equiv> 0x02D7"
abbreviation RESPB_OP_SORT_RO :: "16 word" where "RESPB_OP_SORT_RO \<equiv> 0x02D8"
abbreviation RESPB_OP_TOUCH :: "16 word" where "RESPB_OP_TOUCH \<equiv> 0x02D9"
abbreviation RESPB_OP_OBJECT :: "16 word" where "RESPB_OP_OBJECT \<equiv> 0x02DA"
abbreviation RESPB_OP_WAIT :: "16 word" where "RESPB_OP_WAIT \<equiv> 0x02DB"
abbreviation RESPB_OP_WAITAOF :: "16 word" where "RESPB_OP_WAITAOF \<equiv> 0x02DC"
abbreviation RESPB_OP_PING :: "16 word" where "RESPB_OP_PING \<equiv> 0x0300"
abbreviation RESPB_OP_ECHO :: "16 word" where "RESPB_OP_ECHO \<equiv> 0x0301"
abbreviation RESPB_OP_AUTH :: "16 word" where "RESPB_OP_AUTH \<equiv> 0x0302"
abbreviation RESPB_OP_SELECT :: "16 word" where "RESPB_OP_SELECT \<equiv> 0x0303"
abbreviation RESPB_OP_QUIT :: "16 word" where "RESPB_OP_QUIT \<equiv> 0x0304"
abbreviation RESPB_OP_HELLO :: "16 word" where "RESPB_OP_HELLO \<equiv> 0x0305"
abbreviation RESPB_OP_RESET :: "16 word" where "RESPB_OP_RESET \<equiv> 0x0306"
abbreviation RESPB_OP_CLIENT :: "16 word" where "RESPB_OP_CLIENT \<equiv> 0x0307"
abbreviation RESPB_OP_MULTI :: "16 word" where "RESPB_OP_MULTI \<equiv> 0x0240"
abbreviation RESPB_OP_EXEC :: "16 word" where "RESPB_OP_EXEC \<equiv> 0x0241"
abbreviation RESPB_OP_DISCARD :: "16 word" where "RESPB_OP_DISCARD \<equiv> 0x0242"
abbreviation RESPB_OP_WATCH :: "16 word" where "RESPB_OP_WATCH \<equiv> 0x0243"
abbreviation RESPB_OP_UNWATCH :: "16 word" where "RESPB_OP_UNWATCH \<equiv> 0x0244"
abbreviation RESPB_OP_EVAL :: "16 word" where "RESPB_OP_EVAL \<equiv> 0x0260"
abbreviation RESPB_OP_EVALSHA :: "16 word" where "RESPB_OP_EVALSHA \<equiv> 0x0261"
abbreviation RESPB_OP_EVAL_RO :: "16 word" where "RESPB_OP_EVAL_RO \<equiv> 0x0262"
abbreviation RESPB_OP_EVALSHA_RO :: "16 word" where "RESPB_OP_EVALSHA_RO \<equiv> 0x0263"
abbreviation RESPB_OP_SCRIPT :: "16 word" where "RESPB_OP_SCRIPT \<equiv> 0x0264"
abbreviation RESPB_OP_FCALL :: "16 word" where "RESPB_OP_FCALL \<equiv> 0x0265"
abbreviation RESPB_OP_FCALL_RO :: "16 word" where "RESPB_OP_FCALL_RO \<equiv> 0x0266"
abbreviation RESPB_OP_FUNCTION :: "16 word" where "RESPB_OP_FUNCTION \<equiv> 0x0267"
abbreviation RESPB_OP_CLUSTER :: "16 word" where "RESPB_OP_CLUSTER \<equiv> 0x0340"
abbreviation RESPB_OP_READONLY :: "16 word" where "RESPB_OP_READONLY \<equiv> 0x0341"
abbreviation RESPB_OP_READWRITE :: "16 word" where "RESPB_OP_READWRITE \<equiv> 0x0342"
abbreviation RESPB_OP_ASKING :: "16 word" where "RESPB_OP_ASKING \<equiv> 0x0343"
abbreviation RESPB_OP_DBSIZE :: "16 word" where "RESPB_OP_DBSIZE \<equiv> 0x03C0"
abbreviation RESPB_OP_FLUSHDB :: "16 word" where "RESPB_OP_FLUSHDB \<equiv> 0x03C1"
abbreviation RESPB_OP_FLUSHALL :: "16 word" where "RESPB_OP_FLUSHALL \<equiv> 0x03C2"
abbreviation RESPB_OP_SAVE :: "16 word" where "RESPB_OP_SAVE \<equiv> 0x03C3"
abbreviation RESPB_OP_BGSAVE :: "16 word" where "RESPB_OP_BGSAVE \<equiv> 0x03C4"
abbreviation RESPB_OP_BGREWRITEAOF :: "16 word" where "RESPB_OP_BGREWRITEAOF \<equiv> 0x03C5"
abbreviation RESPB_OP_LASTSAVE :: "16 word" where "RESPB_OP_LASTSAVE \<equiv> 0x03C6"
abbreviation RESPB_OP_SHUTDOWN :: "16 word" where "RESPB_OP_SHUTDOWN \<equiv> 0x03C7"
abbreviation RESPB_OP_INFO :: "16 word" where "RESPB_OP_INFO \<equiv> 0x03C8"
abbreviation RESPB_OP_CONFIG :: "16 word" where "RESPB_OP_CONFIG \<equiv> 0x03C9"
abbreviation RESPB_OP_COMMAND :: "16 word" where "RESPB_OP_COMMAND \<equiv> 0x03CA"
abbreviation RESPB_OP_TIME :: "16 word" where "RESPB_OP_TIME \<equiv> 0x03CB"
abbreviation RESPB_OP_ROLE :: "16 word" where "RESPB_OP_ROLE \<equiv> 0x03CC"
abbreviation RESPB_OP_REPLICAOF :: "16 word" where "RESPB_OP_REPLICAOF \<equiv> 0x03CD"
abbreviation RESPB_OP_SLAVEOF :: "16 word" where "RESPB_OP_SLAVEOF \<equiv> 0x03CE"
abbreviation RESPB_OP_MONITOR :: "16 word" where "RESPB_OP_MONITOR \<equiv> 0x03CF"
abbreviation RESPB_OP_DEBUG :: "16 word" where "RESPB_OP_DEBUG \<equiv> 0x03D0"
abbreviation RESPB_OP_SYNC :: "16 word" where "RESPB_OP_SYNC \<equiv> 0x03D1"
abbreviation RESPB_OP_PSYNC :: "16 word" where "RESPB_OP_PSYNC \<equiv> 0x03D2"
abbreviation RESPB_OP_REPLCONF :: "16 word" where "RESPB_OP_REPLCONF \<equiv> 0x03D3"
abbreviation RESPB_OP_SLOWLOG :: "16 word" where "RESPB_OP_SLOWLOG \<equiv> 0x03D4"
abbreviation RESPB_OP_LATENCY :: "16 word" where "RESPB_OP_LATENCY \<equiv> 0x03D5"
abbreviation RESPB_OP_MEMORY :: "16 word" where "RESPB_OP_MEMORY \<equiv> 0x03D6"
abbreviation RESPB_OP_MODULE_CMD :: "16 word" where "RESPB_OP_MODULE_CMD \<equiv> 0x03D7"
abbreviation RESPB_OP_ACL :: "16 word" where "RESPB_OP_ACL \<equiv> 0x03D8"
abbreviation RESPB_OP_FAILOVER :: "16 word" where "RESPB_OP_FAILOVER \<equiv> 0x03D9"
abbreviation RESPB_OP_SWAPDB :: "16 word" where "RESPB_OP_SWAPDB \<equiv> 0x03DA"
abbreviation RESPB_OP_LOLWUT :: "16 word" where "RESPB_OP_LOLWUT \<equiv> 0x03DB"
abbreviation RESPB_OP_RESTORE_ASKING :: "16 word" where "RESPB_OP_RESTORE_ASKING \<equiv> 0x03DC"
abbreviation RESPB_OP_COMMANDLOG :: "16 word" where "RESPB_OP_COMMANDLOG \<equiv> 0x03DD"
abbreviation RESPB_OP_PUBLISH :: "16 word" where "RESPB_OP_PUBLISH \<equiv> 0x0200"
abbreviation RESPB_OP_SUBSCRIBE :: "16 word" where "RESPB_OP_SUBSCRIBE \<equiv> 0x0201"
abbreviation RESPB_OP_UNSUBSCRIBE :: "16 word" where "RESPB_OP_UNSUBSCRIBE \<equiv> 0x0202"
abbreviation RESPB_OP_PSUBSCRIBE :: "16 word" where "RESPB_OP_PSUBSCRIBE \<equiv> 0x0203"
abbreviation RESPB_OP_PUNSUBSCRIBE :: "16 word" where "RESPB_OP_PUNSUBSCRIBE \<equiv> 0x0204"
abbreviation RESPB_OP_PUBSUB :: "16 word" where "RESPB_OP_PUBSUB \<equiv> 0x0205"
abbreviation RESPB_OP_SPUBLISH :: "16 word" where "RESPB_OP_SPUBLISH \<equiv> 0x0206"
abbreviation RESPB_OP_SSUBSCRIBE :: "16 word" where "RESPB_OP_SSUBSCRIBE \<equiv> 0x0207"
abbreviation RESPB_OP_SUNSUBSCRIBE :: "16 word" where "RESPB_OP_SUNSUBSCRIBE \<equiv> 0x0208"
abbreviation RESPB_OP_MODULE :: "16 word" where "RESPB_OP_MODULE \<equiv> 0xF000"
abbreviation RESPB_OP_RESP_PASSTHROUGH :: "16 word" where "RESPB_OP_RESP_PASSTHROUGH \<equiv> 0xFFFF"

abbreviation RESPB_MODULE_JSON :: "16 word" where "RESPB_MODULE_JSON \<equiv> 0x0000"
abbreviation RESPB_MODULE_BF :: "16 word" where "RESPB_MODULE_BF \<equiv> 0x0001"
abbreviation RESPB_MODULE_FT :: "16 word" where "RESPB_MODULE_FT \<equiv> 0x0002"

abbreviation RESPB_MAX_ARGS :: nat where "RESPB_MAX_ARGS \<equiv> 64"

text \<open>
  \<^verbatim>\<open>respb_arg_t\<close> is a pointer into the input buffer and a length: the pointer is the
  offset of the first byte in that buffer. \<^verbatim>\<open>respb_command_t\<close> holds the array
  \<^verbatim>\<open>args[RESPB_MAX_ARGS]\<close> as a function on indices; a store at an index of 64 or more is
  a fault of the model (\<open>ArgsOverflow\<close>), never a silent no-op. \<^verbatim>\<open>raw_payload\<close> and
  \<^verbatim>\<open>resp_data\<close> are offsets into the buffer as well. \<^verbatim>\<open>respb_parser_t\<close> is the slice
  \<^verbatim>\<open>(buffer, buffer_len)\<close>, a list of bytes whose length is \<^verbatim>\<open>buffer_len\<close>, and the cursor.
\<close>

record respb_arg =
  data :: nat
  len :: nat

record respb_command =
  opcode :: "16 word"
  mux_id :: "16 word"
  argc :: nat
  args :: "nat \<Rightarrow> respb_arg"
  raw_payload :: nat
  raw_payload_len :: nat
  module_subcommand :: "32 word"
  module_id :: "16 word"
  command_id :: "16 word"
  resp_length :: "32 word"
  resp_data :: nat

record respb_parser =
  buffer :: "byte list"
  pos :: nat

abbreviation buffer_len :: "respb_parser \<Rightarrow> nat" where
  "buffer_len p \<equiv> length (buffer p)"

section \<open>RESPB parser (src/respb_parser.c)\<close>

subsection \<open>Machine arithmetic and reads\<close>

text \<open>
  \<^verbatim>\<open>size_t\<close> is 64 bits wide on the platforms the benchmark builds for; the cursor
  arithmetic of the parser is unsigned and wraps, written out here with \<open>mod 2 ^ 64\<close>.
\<close>

definition size_add :: "nat \<Rightarrow> nat \<Rightarrow> nat" where
  "size_add a b = (a + b) mod 2 ^ 64"

definition size_sub :: "nat \<Rightarrow> nat \<Rightarrow> nat" where
  "size_sub a b = (a + 2 ^ 64 - b mod 2 ^ 64) mod 2 ^ 64"

text \<open>
  A read of the buffer at an index: \<open>None\<close> when the index lies at or past the end of
  the slice (in C, undefined behaviour). The big-endian readers take the buffer and the
  offset that the C code passes as the pointer \<^verbatim>\<open>buffer + pos\<close>.
\<close>

definition byte_at :: "byte list \<Rightarrow> nat \<Rightarrow> byte option" where
  "byte_at buf i = (if i < length buf then Some (buf ! i) else None)"

definition read_u16_be :: "byte list \<Rightarrow> nat \<Rightarrow> 16 word option" where
  "read_u16_be buf i =
     (case (byte_at buf i, byte_at buf (i + 1)) of
        (Some b0, Some b1) \<Rightarrow> Some (push_bit 8 (ucast b0) OR ucast b1)
      | _ \<Rightarrow> None)"

definition read_u32_be :: "byte list \<Rightarrow> nat \<Rightarrow> 32 word option" where
  "read_u32_be buf i =
     (case (byte_at buf i, byte_at buf (i + 1), byte_at buf (i + 2), byte_at buf (i + 3)) of
        (Some b0, Some b1, Some b2, Some b3) \<Rightarrow>
          Some (push_bit 24 (ucast b0) OR push_bit 16 (ucast b1) OR push_bit 8 (ucast b2) OR ucast b3)
      | _ \<Rightarrow> None)"

subsection \<open>Statements of the parser body\<close>

text \<open>
  A statement of \<^verbatim>\<open>respb_parse_command\<close> acts on the parser and the command record. It
  either falls through to the next statement (\<open>Cont\<close>), leaves the function with a return
  value (\<open>Return\<close>, the \<^verbatim>\<open>return 0\<close> inside \<^verbatim>\<open>CHECK_AVAIL\<close>), or does what C leaves
  undefined (\<open>Fault\<close>): a read outside the buffer or a store outside \<^verbatim>\<open>args\<close>.
\<close>

datatype fault = ReadPastBuffer | ArgsOverflow

datatype 'a flow = Cont 'a | Return int 'a | Fault fault

type_synonym pstate = "respb_parser \<times> respb_command"
type_synonym stmt = "pstate \<Rightarrow> pstate flow"

text \<open>Statements in sequence: the first one that does not fall through ends the block.\<close>

fun block :: "stmt list \<Rightarrow> stmt" where
  "block [] s = Cont s"
| "block (c # cs) s = (case c s of Cont s' \<Rightarrow> block cs s' | Return r s' \<Rightarrow> Return r s' | Fault f \<Rightarrow> Fault f)"

text \<open>\<^verbatim>\<open>#define CHECK_AVAIL(parser, n) if ((parser)->pos + (n) > (parser)->buffer_len) return 0\<close>\<close>

fun CHECK_AVAIL :: "nat \<Rightarrow> stmt" where
  "CHECK_AVAIL n (p, c) = (if size_add (pos p) n > buffer_len p then Return 0 (p, c) else Cont (p, c))"

text \<open>\<^verbatim>\<open>parser->pos += n\<close>\<close>

fun advance :: "nat \<Rightarrow> stmt" where
  "advance n (p, c) = Cont (p\<lparr>pos := size_add (pos p) n\<rparr>, c)"

text \<open>\<^verbatim>\<open>cmd->argc = n\<close>\<close>

fun set_argc :: "nat \<Rightarrow> stmt" where
  "set_argc n (p, c) = Cont (p, c\<lparr>argc := n\<rparr>)"

text \<open>
  \<^verbatim>\<open>(arg_ptr)->data = (parser)->buffer + (parser)->pos; (arg_ptr)->len = len\<close> with
  \<^verbatim>\<open>arg_ptr = &cmd->args[i]\<close>.
\<close>

fun store_arg :: "nat \<Rightarrow> nat \<Rightarrow> stmt" where
  "store_arg i l (p, c) =
     (if i < RESPB_MAX_ARGS then Cont (p, c\<lparr>args := (args c)(i := \<lparr>data = pos p, len = l\<rparr>)\<rparr>)
      else Fault ArgsOverflow)"

text \<open>
  A local variable initialised from the buffer at the cursor, and the statements in its
  scope: \<^verbatim>\<open>uint8_t v = parser->buffer[parser->pos]\<close>,
  \<^verbatim>\<open>uint16_t v = read_u16_be(parser->buffer + parser->pos)\<close> and the 32-bit reads. The
  16-bit value is used as a number (a count or a length) everywhere, so the scope gets
  \<open>unat\<close> of it. The cursor does not move.
\<close>

fun read_u8 :: "(byte \<Rightarrow> stmt) \<Rightarrow> stmt" where
  "read_u8 k (p, c) =
     (case byte_at (buffer p) (pos p) of None \<Rightarrow> Fault ReadPastBuffer | Some v \<Rightarrow> k v (p, c))"

fun read_u16 :: "(nat \<Rightarrow> stmt) \<Rightarrow> stmt" where
  "read_u16 k (p, c) =
     (case read_u16_be (buffer p) (pos p) of None \<Rightarrow> Fault ReadPastBuffer | Some v \<Rightarrow> k (unat v) (p, c))"

fun read_u32 :: "(32 word \<Rightarrow> stmt) \<Rightarrow> stmt" where
  "read_u32 k (p, c) =
     (case read_u32_be (buffer p) (pos p) of None \<Rightarrow> Fault ReadPastBuffer | Some v \<Rightarrow> k v (p, c))"

text \<open>
  The two macros, in the order of their statements: check two (four) bytes, read the
  length, move past it, check the length, store pointer and length, move past the string.
\<close>

definition READ_STRING_2B :: "nat \<Rightarrow> stmt" where
  "READ_STRING_2B i =
     block [CHECK_AVAIL 2,
            read_u16 (\<lambda>len. block [advance 2, CHECK_AVAIL len, store_arg i len, advance len])]"

definition READ_STRING_4B :: "nat \<Rightarrow> stmt" where
  "READ_STRING_4B i =
     block [CHECK_AVAIL 4,
            read_u32 (\<lambda>len. block [advance 4, CHECK_AVAIL (unat len), store_arg i (unat len),
                                    advance (unat len)])]"

text \<open>\<^verbatim>\<open>if (b) { ... }\<close> and \<^verbatim>\<open>if (parser->pos < parser->buffer_len) { ... }\<close>\<close>

definition if_then :: "bool \<Rightarrow> stmt \<Rightarrow> stmt" where
  "if_then b body s = (if b then body s else Cont s)"

fun if_pos_lt_buffer_len :: "stmt \<Rightarrow> stmt" where
  "if_pos_lt_buffer_len body (p, c) = (if pos p < buffer_len p then body (p, c) else Cont (p, c))"

text \<open>
  \<^verbatim>\<open>for (uint16_t i = 0; i < n && guard(i); i++) { body(i) }\<close>. The counter is a
  \<^verbatim>\<open>uint16_t\<close> that stays below \<open>n \<le> 65535\<close>, so \<^verbatim>\<open>i++\<close> never wraps, and the guards
  (\<^verbatim>\<open>i * 2 + 1 < RESPB_MAX_ARGS\<close> and the like) are computed in \<^verbatim>\<open>int\<close> on values this small.
\<close>

function for_loop_from :: "nat \<Rightarrow> nat \<Rightarrow> (nat \<Rightarrow> bool) \<Rightarrow> (nat \<Rightarrow> stmt) \<Rightarrow> stmt" where
  "for_loop_from i n guard body s =
     (if i < n \<and> guard i
      then (case body i s of
              Cont s' \<Rightarrow> for_loop_from (i + 1) n guard body s'
            | Return r s' \<Rightarrow> Return r s'
            | Fault f \<Rightarrow> Fault f)
      else Cont s)"
  by pat_completeness auto
termination
  by (relation "measure (\<lambda>(i, n, guard, body, s). n - i)") auto

declare for_loop_from.simps [simp del]

definition for_loop :: "nat \<Rightarrow> (nat \<Rightarrow> bool) \<Rightarrow> (nat \<Rightarrow> stmt) \<Rightarrow> stmt" where
  "for_loop = for_loop_from 0"

subsection \<open>Module and passthrough frames\<close>

text \<open>\<^verbatim>\<open>case RESPB_OP_MODULE\<close>: the sub-command word, its two halves, then the payload by module and command.\<close>

fun set_module_subcommand :: "32 word \<Rightarrow> stmt" where
  "set_module_subcommand v (p, c) = Cont (p, c\<lparr>module_subcommand := v\<rparr>)"

fun set_module_ids :: stmt where
  "set_module_ids (p, c) =
     Cont (p, c\<lparr>module_id := ucast (drop_bit 16 (module_subcommand c) AND 0xFFFF),
                command_id := ucast (module_subcommand c AND 0xFFFF)\<rparr>)"

fun respb_module_payload :: stmt where
  "respb_module_payload (p, c) =
     (if module_id c = RESPB_MODULE_JSON then
        (if command_id c = 0x0000 then
           block [READ_STRING_2B 0, READ_STRING_2B 1, READ_STRING_4B 2,
                  CHECK_AVAIL 1, advance 1, set_argc 3] (p, c)
         else if command_id c = 0x0001 then
           block [READ_STRING_2B 0, CHECK_AVAIL 2,
                  read_u16 (\<lambda>numpaths. block [advance 2,
                    for_loop numpaths (\<lambda>i. i + 1 < RESPB_MAX_ARGS) (\<lambda>i. block [READ_STRING_2B (i + 1)]),
                    set_argc (1 + (if numpaths < RESPB_MAX_ARGS - 1 then numpaths else RESPB_MAX_ARGS - 1))])] (p, c)
         else block [READ_STRING_2B 0, set_argc 1] (p, c))
      else if module_id c = RESPB_MODULE_BF then
        (if command_id c = 0x0000 then block [READ_STRING_2B 0, READ_STRING_2B 1, set_argc 2] (p, c)
         else if command_id c = 0x0002 then block [READ_STRING_2B 0, READ_STRING_2B 1, set_argc 2] (p, c)
         else block [READ_STRING_2B 0, set_argc 1] (p, c))
      else if module_id c = RESPB_MODULE_FT then
        (if command_id c = 0x0001 then block [READ_STRING_2B 0, READ_STRING_2B 1, set_argc 2] (p, c)
         else block [READ_STRING_2B 0, set_argc 1] (p, c))
      else block [READ_STRING_2B 0, set_argc 1] (p, c))"

definition respb_parse_module :: stmt where
  "respb_parse_module =
     block [CHECK_AVAIL 4,
            read_u32 (\<lambda>v. block [set_module_subcommand v, advance 4, set_module_ids,
                                  respb_module_payload])]"

text \<open>\<^verbatim>\<open>case RESPB_OP_RESP_PASSTHROUGH\<close>\<close>

fun set_resp_length :: "32 word \<Rightarrow> stmt" where
  "set_resp_length v (p, c) = Cont (p, c\<lparr>resp_length := v\<rparr>)"

fun set_resp_data :: stmt where
  "set_resp_data (p, c) = Cont (p, c\<lparr>resp_data := pos p\<rparr>)"

definition respb_parse_resp_passthrough :: stmt where
  "respb_parse_resp_passthrough =
     block [CHECK_AVAIL 4,
            read_u32 (\<lambda>v. block [set_resp_length v, advance 4, CHECK_AVAIL (unat v),
                                  set_resp_data, advance (unat v), set_argc 0])]"

subsection \<open>The switch\<close>

text \<open>
  The \<^verbatim>\<open>switch (cmd->opcode)\<close> of \<^verbatim>\<open>respb_parse_command\<close> as a table: one entry for each
  group of \<^verbatim>\<open>case\<close> labels that share a body, in the order of the source, with the body
  statement by statement (the closing \<^verbatim>\<open>break\<close> is the end of the block). A C switch has
  no two equal labels, so the first entry that lists the opcode is the one the switch
  jumps to; an opcode that no entry lists goes to \<^verbatim>\<open>default\<close>.
\<close>

definition respb_switch :: "(16 word list \<times> stmt) list" where
  "respb_switch = [
   ([RESPB_OP_GET, RESPB_OP_DECR, RESPB_OP_GETDEL, RESPB_OP_INCR, RESPB_OP_STRLEN],
      block [READ_STRING_2B 0, set_argc 1]),
   ([RESPB_OP_SET],
      block [READ_STRING_2B 0, READ_STRING_4B 1, CHECK_AVAIL 9, advance 9, set_argc 2]),
   ([RESPB_OP_APPEND, RESPB_OP_SETNX],
      block [READ_STRING_2B 0, READ_STRING_4B 1, set_argc 2]),
   ([RESPB_OP_INCRBY, RESPB_OP_DECRBY],
      block [READ_STRING_2B 0, CHECK_AVAIL 8, advance 8, set_argc 1]),
   ([RESPB_OP_GETEX],
      block [READ_STRING_2B 0, CHECK_AVAIL 1,
       read_u8 (\<lambda>flags. block [advance 1,
         if_then (flags AND 0x01 \<noteq> 0) (block [CHECK_AVAIL 8, advance 8]),
         set_argc 1])]),
   ([RESPB_OP_GETRANGE, RESPB_OP_SUBSTR],
      block [READ_STRING_2B 0, CHECK_AVAIL 16, advance 16, set_argc 1]),
   ([RESPB_OP_GETSET],
      block [READ_STRING_2B 0, READ_STRING_4B 1, set_argc 2]),
   ([RESPB_OP_INCRBYFLOAT],
      block [READ_STRING_2B 0, CHECK_AVAIL 8, advance 8, set_argc 1]),
   ([RESPB_OP_MSETNX],
      block [CHECK_AVAIL 2, read_u16 (\<lambda>count. block [advance 2,
       for_loop count (\<lambda>i. i * 2 + 1 < RESPB_MAX_ARGS) (\<lambda>i. block [READ_STRING_2B (i * 2),
       READ_STRING_4B (i * 2 + 1)]),
       set_argc (if count < RESPB_MAX_ARGS div 2 then count * 2 else RESPB_MAX_ARGS)])]),
   ([RESPB_OP_PSETEX, RESPB_OP_SETEX],
      block [READ_STRING_2B 0, CHECK_AVAIL 8, advance 8, READ_STRING_4B 1, set_argc 2]),
   ([RESPB_OP_SETRANGE],
      block [READ_STRING_2B 0, CHECK_AVAIL 8, advance 8, READ_STRING_4B 1, set_argc 2]),
   ([RESPB_OP_LCS],
      block [READ_STRING_2B 0, READ_STRING_2B 1, CHECK_AVAIL 1, advance 1, set_argc 2]),
   ([RESPB_OP_DELIFEQ],
      block [READ_STRING_2B 0, READ_STRING_4B 1, set_argc 2]),
   ([RESPB_OP_EXPIRE],
      block [READ_STRING_2B 0, CHECK_AVAIL 9, advance 9, set_argc 1]),
   ([RESPB_OP_MGET, RESPB_OP_DEL, RESPB_OP_EXISTS, RESPB_OP_UNLINK],
      block [CHECK_AVAIL 2, read_u16 (\<lambda>count. block [advance 2,
       for_loop count (\<lambda>i. i < RESPB_MAX_ARGS) (\<lambda>i. block [READ_STRING_2B i]),
       set_argc (if count < RESPB_MAX_ARGS then count else RESPB_MAX_ARGS)])]),
   ([RESPB_OP_MSET],
      block [CHECK_AVAIL 2, read_u16 (\<lambda>count. block [advance 2,
       for_loop count (\<lambda>i. i * 2 + 1 < RESPB_MAX_ARGS) (\<lambda>i. block [READ_STRING_2B (i * 2),
       READ_STRING_4B (i * 2 + 1)]),
       set_argc (if count < RESPB_MAX_ARGS div 2 then count * 2 else RESPB_MAX_ARGS)])]),
   ([RESPB_OP_LPUSH, RESPB_OP_RPUSH],
      block [READ_STRING_2B 0, CHECK_AVAIL 2, read_u16 (\<lambda>count. block [advance 2,
       for_loop count (\<lambda>i. i + 1 < RESPB_MAX_ARGS) (\<lambda>i. block [READ_STRING_2B (i + 1)]),
       set_argc (1 + (if count < RESPB_MAX_ARGS - 1 then count else RESPB_MAX_ARGS - 1))])]),
   ([RESPB_OP_LPOP, RESPB_OP_RPOP],
      block [READ_STRING_2B 0, set_argc 1]),
   ([RESPB_OP_LLEN],
      block [READ_STRING_2B 0, set_argc 1]),
   ([RESPB_OP_LRANGE],
      block [READ_STRING_2B 0, CHECK_AVAIL 16, advance 16, set_argc 1]),
   ([RESPB_OP_LINDEX],
      block [READ_STRING_2B 0, CHECK_AVAIL 8, advance 8, set_argc 1]),
   ([RESPB_OP_LSET],
      block [READ_STRING_2B 0, CHECK_AVAIL 8, advance 8, READ_STRING_2B 1, set_argc 2]),
   ([RESPB_OP_LREM],
      block [READ_STRING_2B 0, CHECK_AVAIL 8, advance 8, READ_STRING_2B 1, set_argc 2]),
   ([RESPB_OP_LTRIM],
      block [READ_STRING_2B 0, CHECK_AVAIL 16, advance 16, set_argc 1]),
   ([RESPB_OP_LINSERT],
      block [READ_STRING_2B 0, CHECK_AVAIL 1, advance 1, READ_STRING_2B 1, READ_STRING_2B 2,
       set_argc 3]),
   ([RESPB_OP_LPUSHX, RESPB_OP_RPUSHX],
      block [READ_STRING_2B 0, CHECK_AVAIL 2, read_u16 (\<lambda>count. block [advance 2,
       for_loop count (\<lambda>i. i + 1 < RESPB_MAX_ARGS) (\<lambda>i. block [READ_STRING_2B (i + 1)]),
       set_argc (1 + (if count < RESPB_MAX_ARGS - 1 then count else RESPB_MAX_ARGS - 1))])]),
   ([RESPB_OP_RPOPLPUSH],
      block [READ_STRING_2B 0, READ_STRING_2B 1, set_argc 2]),
   ([RESPB_OP_LMOVE],
      block [READ_STRING_2B 0, READ_STRING_2B 1, CHECK_AVAIL 2, advance 2, set_argc 2]),
   ([RESPB_OP_BRPOPLPUSH],
      block [READ_STRING_2B 0, READ_STRING_2B 1, CHECK_AVAIL 8, advance 8, set_argc 2]),
   ([RESPB_OP_BLMOVE],
      block [READ_STRING_2B 0, READ_STRING_2B 1, CHECK_AVAIL 10, advance 10, set_argc 2]),
   ([RESPB_OP_BLMPOP],
      block [CHECK_AVAIL 8, advance 8, CHECK_AVAIL 2,
       read_u16 (\<lambda>count. block [advance 2,
       for_loop count (\<lambda>i. i < RESPB_MAX_ARGS) (\<lambda>i. block [READ_STRING_2B i]),
       CHECK_AVAIL 1, advance 1,
       set_argc (if count < RESPB_MAX_ARGS then count else RESPB_MAX_ARGS)])]),
   ([RESPB_OP_LMPOP],
      block [CHECK_AVAIL 2, read_u16 (\<lambda>count. block [advance 2,
       for_loop count (\<lambda>i. i < RESPB_MAX_ARGS) (\<lambda>i. block [READ_STRING_2B i]),
       CHECK_AVAIL 1, advance 1,
       set_argc (if count < RESPB_MAX_ARGS then count else RESPB_MAX_ARGS)])]),
   ([RESPB_OP_LPOS],
      block [READ_STRING_2B 0, READ_STRING_2B 1, set_argc 2]),
   ([RESPB_OP_BLPOP, RESPB_OP_BRPOP],
      block [CHECK_AVAIL 2, read_u16 (\<lambda>count. block [advance 2,
       for_loop count (\<lambda>i. i < RESPB_MAX_ARGS) (\<lambda>i. block [READ_STRING_2B i]),
       CHECK_AVAIL 8, advance 8,
       set_argc (if count < RESPB_MAX_ARGS then count else RESPB_MAX_ARGS)])]),
   ([RESPB_OP_SADD],
      block [READ_STRING_2B 0, CHECK_AVAIL 2, read_u16 (\<lambda>count. block [advance 2,
       for_loop count (\<lambda>i. i + 1 < RESPB_MAX_ARGS) (\<lambda>i. block [READ_STRING_2B (i + 1)]),
       set_argc (1 + (if count < RESPB_MAX_ARGS - 1 then count else RESPB_MAX_ARGS - 1))])]),
   ([RESPB_OP_SREM],
      block [READ_STRING_2B 0, CHECK_AVAIL 2, read_u16 (\<lambda>count. block [advance 2,
       for_loop count (\<lambda>i. i + 1 < RESPB_MAX_ARGS) (\<lambda>i. block [READ_STRING_2B (i + 1)]),
       set_argc (1 + (if count < RESPB_MAX_ARGS - 1 then count else RESPB_MAX_ARGS - 1))])]),
   ([RESPB_OP_SMEMBERS, RESPB_OP_SCARD, RESPB_OP_SPOP],
      block [READ_STRING_2B 0, set_argc 1]),
   ([RESPB_OP_SISMEMBER],
      block [READ_STRING_2B 0, READ_STRING_2B 1, set_argc 2]),
   ([RESPB_OP_SRANDMEMBER],
      block [READ_STRING_2B 0, set_argc 1]),
   ([RESPB_OP_SINTER, RESPB_OP_SUNION, RESPB_OP_SDIFF, RESPB_OP_SINTERCARD],
      block [CHECK_AVAIL 2, read_u16 (\<lambda>count. block [advance 2,
       for_loop count (\<lambda>i. i < RESPB_MAX_ARGS) (\<lambda>i. block [READ_STRING_2B i]),
       set_argc (if count < RESPB_MAX_ARGS then count else RESPB_MAX_ARGS)])]),
   ([RESPB_OP_SINTERSTORE, RESPB_OP_SUNIONSTORE, RESPB_OP_SDIFFSTORE],
      block [READ_STRING_2B 0, CHECK_AVAIL 2, read_u16 (\<lambda>count. block [advance 2,
       for_loop count (\<lambda>i. i + 1 < RESPB_MAX_ARGS) (\<lambda>i. block [READ_STRING_2B (i + 1)]),
       set_argc (1 + (if count < RESPB_MAX_ARGS - 1 then count else RESPB_MAX_ARGS - 1))])]),
   ([RESPB_OP_SMOVE],
      block [READ_STRING_2B 0, READ_STRING_2B 1, READ_STRING_2B 2, set_argc 3]),
   ([RESPB_OP_SSCAN],
      block [READ_STRING_2B 0, CHECK_AVAIL 8, advance 8, set_argc 1]),
   ([RESPB_OP_SMISMEMBER],
      block [READ_STRING_2B 0, CHECK_AVAIL 2, read_u16 (\<lambda>count. block [advance 2,
       for_loop count (\<lambda>i. i + 1 < RESPB_MAX_ARGS) (\<lambda>i. block [READ_STRING_2B (i + 1)]),
       set_argc (1 + (if count < RESPB_MAX_ARGS - 1 then count else RESPB_MAX_ARGS - 1))])]),
   ([RESPB_OP_HSET],
      block [READ_STRING_2B 0, CHECK_AVAIL 2, read_u16 (\<lambda>npairs. block [advance 2,
       for_loop npairs (\<lambda>i. i * 2 + 2 < RESPB_MAX_ARGS) (\<lambda>i. block [READ_STRING_2B (i * 2 + 1),
       READ_STRING_4B (i * 2 + 2)]),
       set_argc (1 + (if npairs < (RESPB_MAX_ARGS - 1) div 2 then npairs * 2 else RESPB_MAX_ARGS - 1))])]),
   ([RESPB_OP_HGET],
      block [READ_STRING_2B 0, READ_STRING_2B 1, set_argc 2]),
   ([RESPB_OP_HMSET],
      block [READ_STRING_2B 0, CHECK_AVAIL 2, read_u16 (\<lambda>npairs. block [advance 2,
       for_loop npairs (\<lambda>i. i * 2 + 2 < RESPB_MAX_ARGS) (\<lambda>i. block [READ_STRING_2B (i * 2 + 1),
       READ_STRING_4B (i * 2 + 2)]),
       set_argc (1 + (if npairs < (RESPB_MAX_ARGS - 1) div 2 then npairs * 2 else RESPB_MAX_ARGS - 1))])]),
   ([RESPB_OP_HMGET],
      block [READ_STRING_2B 0, CHECK_AVAIL 2, read_u16 (\<lambda>count. block [advance 2,
       for_loop count (\<lambda>i. i + 1 < RESPB_MAX_ARGS) (\<lambda>i. block [READ_STRING_2B (i + 1)]),
       set_argc (1 + (if count < RESPB_MAX_ARGS - 1 then count else RESPB_MAX_ARGS - 1))])]),
   ([RESPB_OP_HDEL],
      block [READ_STRING_2B 0, CHECK_AVAIL 2, read_u16 (\<lambda>count. block [advance 2,
       for_loop count (\<lambda>i. i + 1 < RESPB_MAX_ARGS) (\<lambda>i. block [READ_STRING_2B (i + 1)]),
       set_argc (1 + (if count < RESPB_MAX_ARGS - 1 then count else RESPB_MAX_ARGS - 1))])]),
   ([RESPB_OP_HGETALL, RESPB_OP_HKEYS, RESPB_OP_HVALS, RESPB_OP_HLEN],
      block [READ_STRING_2B 0, set_argc 1]),
   ([RESPB_OP_HRANDFIELD],
      block [READ_STRING_2B 0, set_argc 1]),
   ([RESPB_OP_HEXPIRE, RESPB_OP_HEXPIREAT, RESPB_OP_HPEXPIRE, RESPB_OP_HPEXPIREAT],
      block [READ_STRING_2B 0, CHECK_AVAIL 11,
       advance 11,
       if_pos_lt_buffer_len (block [READ_STRING_2B 1]),
       set_argc 2]),
   ([RESPB_OP_HEXPIRETIME, RESPB_OP_HPEXPIRETIME, RESPB_OP_HPTTL, RESPB_OP_HTTL,
     RESPB_OP_HPERSIST],
      block [READ_STRING_2B 0, CHECK_AVAIL 2, read_u16 (\<lambda>numfields. block [advance 2,
       if_then (numfields > 0 \<and> numfields < RESPB_MAX_ARGS) (block [READ_STRING_2B 1]),
       set_argc (if numfields > 0 then 2 else 1)])]),
   ([RESPB_OP_HGETEX],
      block [READ_STRING_2B 0, CHECK_AVAIL 1, advance 1, CHECK_AVAIL 2,
       read_u16 (\<lambda>numfields2. block [advance 2,
       if_then (numfields2 > 0 \<and> numfields2 < RESPB_MAX_ARGS) (block [READ_STRING_2B 1]),
       set_argc (if numfields2 > 0 then 2 else 1)])]),
   ([RESPB_OP_HSETEX],
      block [READ_STRING_2B 0, CHECK_AVAIL 1, advance 1, CHECK_AVAIL 2,
       read_u16 (\<lambda>numfields3. block [advance 2,
       if_then (numfields3 > 0 \<and> numfields3 < RESPB_MAX_ARGS) (block [READ_STRING_2B 1,
       READ_STRING_4B 2]), set_argc (if numfields3 > 0 then 3 else 1)])]),
   ([RESPB_OP_HEXISTS, RESPB_OP_HSTRLEN],
      block [READ_STRING_2B 0, READ_STRING_2B 1, set_argc 2]),
   ([RESPB_OP_HINCRBY],
      block [READ_STRING_2B 0, READ_STRING_2B 1, CHECK_AVAIL 8, advance 8, set_argc 2]),
   ([RESPB_OP_HINCRBYFLOAT],
      block [READ_STRING_2B 0, READ_STRING_2B 1, CHECK_AVAIL 8, advance 8, set_argc 2]),
   ([RESPB_OP_HSETNX],
      block [READ_STRING_2B 0, READ_STRING_2B 1, READ_STRING_4B 2, set_argc 3]),
   ([RESPB_OP_HSCAN],
      block [READ_STRING_2B 0, CHECK_AVAIL 8, advance 8, set_argc 1]),
   ([RESPB_OP_ZADD],
      block [READ_STRING_2B 0, CHECK_AVAIL 3, advance 3, set_argc 1]),
   ([RESPB_OP_ZREM],
      block [READ_STRING_2B 0, CHECK_AVAIL 2, read_u16 (\<lambda>count. block [advance 2,
       for_loop count (\<lambda>i. i + 1 < RESPB_MAX_ARGS) (\<lambda>i. block [READ_STRING_2B (i + 1)]),
       set_argc (1 + (if count < RESPB_MAX_ARGS - 1 then count else RESPB_MAX_ARGS - 1))])]),
   ([RESPB_OP_ZSCORE],
      block [READ_STRING_2B 0, READ_STRING_2B 1, set_argc 2]),
   ([RESPB_OP_ZRANGE, RESPB_OP_ZREVRANGE],
      block [READ_STRING_2B 0, CHECK_AVAIL 17, advance 17, set_argc 1]),
   ([RESPB_OP_ZRANGEBYSCORE, RESPB_OP_ZREVRANGEBYSCORE],
      block [READ_STRING_2B 0, CHECK_AVAIL 17, advance 17, set_argc 1]),
   ([RESPB_OP_ZRANGEBYLEX, RESPB_OP_ZREVRANGEBYLEX],
      block [READ_STRING_2B 0, READ_STRING_2B 1, READ_STRING_2B 2, set_argc 3]),
   ([RESPB_OP_ZREMRANGEBYLEX, RESPB_OP_ZLEXCOUNT],
      block [READ_STRING_2B 0, READ_STRING_2B 1, READ_STRING_2B 2, set_argc 3]),
   ([RESPB_OP_BZPOPMIN, RESPB_OP_BZPOPMAX],
      block [CHECK_AVAIL 2, read_u16 (\<lambda>count. block [advance 2,
       for_loop count (\<lambda>i. i < RESPB_MAX_ARGS) (\<lambda>i. block [READ_STRING_2B i]),
       CHECK_AVAIL 8, advance 8,
       set_argc (if count < RESPB_MAX_ARGS then count else RESPB_MAX_ARGS)])]),
   ([RESPB_OP_ZRANDMEMBER],
      block [READ_STRING_2B 0, set_argc 1]),
   ([RESPB_OP_ZDIFF],
      block [CHECK_AVAIL 2, read_u16 (\<lambda>count. block [advance 2,
       for_loop count (\<lambda>i. i < RESPB_MAX_ARGS) (\<lambda>i. block [READ_STRING_2B i]),
       CHECK_AVAIL 1, advance 1,
       set_argc (if count < RESPB_MAX_ARGS then count else RESPB_MAX_ARGS)])]),
   ([RESPB_OP_ZDIFFSTORE],
      block [READ_STRING_2B 0, CHECK_AVAIL 2, read_u16 (\<lambda>count. block [advance 2,
       for_loop count (\<lambda>i. i + 1 < RESPB_MAX_ARGS) (\<lambda>i. block [READ_STRING_2B (i + 1)]),
       set_argc (1 + (if count < RESPB_MAX_ARGS - 1 then count else RESPB_MAX_ARGS - 1))])]),
   ([RESPB_OP_ZINTER, RESPB_OP_ZUNION],
      block [CHECK_AVAIL 2, read_u16 (\<lambda>count. block [advance 2,
       for_loop count (\<lambda>i. i < RESPB_MAX_ARGS) (\<lambda>i. block [READ_STRING_2B i]),
       CHECK_AVAIL 1, advance 1,
       set_argc (if count < RESPB_MAX_ARGS then count else RESPB_MAX_ARGS)])]),
   ([RESPB_OP_ZINTERSTORE, RESPB_OP_ZUNIONSTORE],
      block [READ_STRING_2B 0, CHECK_AVAIL 2, read_u16 (\<lambda>count. block [advance 2,
       for_loop count (\<lambda>i. i + 1 < RESPB_MAX_ARGS) (\<lambda>i. block [READ_STRING_2B (i + 1)]),
       CHECK_AVAIL 1, advance 1,
       set_argc (1 + (if count < RESPB_MAX_ARGS - 1 then count else RESPB_MAX_ARGS - 1))])]),
   ([RESPB_OP_ZSCAN],
      block [READ_STRING_2B 0, CHECK_AVAIL 8, advance 8, set_argc 1]),
   ([RESPB_OP_ZMPOP],
      block [CHECK_AVAIL 2, read_u16 (\<lambda>count. block [advance 2,
       for_loop count (\<lambda>i. i < RESPB_MAX_ARGS) (\<lambda>i. block [READ_STRING_2B i]),
       CHECK_AVAIL 1, advance 1,
       set_argc (if count < RESPB_MAX_ARGS then count else RESPB_MAX_ARGS)])]),
   ([RESPB_OP_BZMPOP],
      block [CHECK_AVAIL 8, advance 8, CHECK_AVAIL 2,
       read_u16 (\<lambda>count. block [advance 2,
       for_loop count (\<lambda>i. i < RESPB_MAX_ARGS) (\<lambda>i. block [READ_STRING_2B i]),
       CHECK_AVAIL 1, advance 1,
       set_argc (if count < RESPB_MAX_ARGS then count else RESPB_MAX_ARGS)])]),
   ([RESPB_OP_ZRANGESTORE],
      block [READ_STRING_2B 0, READ_STRING_2B 1, CHECK_AVAIL 17, advance 17, set_argc 2]),
   ([RESPB_OP_ZINTERCARD],
      block [CHECK_AVAIL 2, read_u16 (\<lambda>count. block [advance 2,
       for_loop count (\<lambda>i. i < RESPB_MAX_ARGS) (\<lambda>i. block [READ_STRING_2B i]),
       set_argc (if count < RESPB_MAX_ARGS then count else RESPB_MAX_ARGS)])]),
   ([RESPB_OP_ZCARD, RESPB_OP_ZPOPMIN, RESPB_OP_ZPOPMAX],
      block [READ_STRING_2B 0, set_argc 1]),
   ([RESPB_OP_ZCOUNT, RESPB_OP_ZREMRANGEBYRANK],
      block [READ_STRING_2B 0, CHECK_AVAIL 16, advance 16, set_argc 1]),
   ([RESPB_OP_ZINCRBY],
      block [READ_STRING_2B 0, CHECK_AVAIL 8, advance 8, READ_STRING_2B 1, set_argc 2]),
   ([RESPB_OP_ZRANK, RESPB_OP_ZREVRANK],
      block [READ_STRING_2B 0, READ_STRING_2B 1, CHECK_AVAIL 1, advance 1, set_argc 2]),
   ([RESPB_OP_ZMSCORE],
      block [READ_STRING_2B 0, CHECK_AVAIL 2, read_u16 (\<lambda>count. block [advance 2,
       for_loop count (\<lambda>i. i + 1 < RESPB_MAX_ARGS) (\<lambda>i. block [READ_STRING_2B (i + 1)]),
       set_argc (1 + (if count < RESPB_MAX_ARGS - 1 then count else RESPB_MAX_ARGS - 1))])]),
   ([RESPB_OP_ZREMRANGEBYSCORE],
      block [READ_STRING_2B 0, CHECK_AVAIL 16, advance 16, set_argc 1]),
   ([RESPB_OP_PING],
      block [set_argc 0]),
   ([RESPB_OP_ECHO],
      block [READ_STRING_2B 0, set_argc 1]),
   ([RESPB_OP_AUTH],
      block [READ_STRING_2B 0, set_argc 1]),
   ([RESPB_OP_SELECT],
      block [CHECK_AVAIL 2, advance 2, set_argc 0]),
   ([RESPB_OP_QUIT, RESPB_OP_RESET],
      block [set_argc 0]),
   ([RESPB_OP_HELLO],
      block [CHECK_AVAIL 1, advance 1, set_argc 0]),
   ([RESPB_OP_CLIENT],
      block [CHECK_AVAIL 1, advance 1, set_argc 0]),
   ([RESPB_OP_CLUSTER],
      block [CHECK_AVAIL 1, advance 1, set_argc 0]),
   ([RESPB_OP_READONLY, RESPB_OP_READWRITE, RESPB_OP_ASKING],
      block [set_argc 0]),
   ([RESPB_OP_DBSIZE, RESPB_OP_SAVE, RESPB_OP_BGREWRITEAOF, RESPB_OP_LASTSAVE,
     RESPB_OP_TIME, RESPB_OP_ROLE, RESPB_OP_MONITOR, RESPB_OP_SYNC],
      block [set_argc 0]),
   ([RESPB_OP_FLUSHDB, RESPB_OP_FLUSHALL],
      block [CHECK_AVAIL 1, advance 1, set_argc 0]),
   ([RESPB_OP_BGSAVE, RESPB_OP_SHUTDOWN],
      block [CHECK_AVAIL 1, advance 1, set_argc 0]),
   ([RESPB_OP_INFO],
      block [CHECK_AVAIL 2, read_u16 (\<lambda>count. block [advance 2,
       if_then (count > 0 \<and> count < RESPB_MAX_ARGS) (block [READ_STRING_2B 0]),
       set_argc (if count > 0 then 1 else 0)])]),
   ([RESPB_OP_CONFIG, RESPB_OP_COMMAND, RESPB_OP_DEBUG, RESPB_OP_SLOWLOG, RESPB_OP_LATENCY,
     RESPB_OP_MEMORY, RESPB_OP_MODULE_CMD, RESPB_OP_ACL, RESPB_OP_COMMANDLOG],
      block [CHECK_AVAIL 1, advance 1, set_argc 0]),
   ([RESPB_OP_REPLICAOF, RESPB_OP_SLAVEOF],
      block [READ_STRING_2B 0, CHECK_AVAIL 2, advance 2, set_argc 1]),
   ([RESPB_OP_PSYNC],
      block [READ_STRING_2B 0, CHECK_AVAIL 8, advance 8, set_argc 1]),
   ([RESPB_OP_REPLCONF],
      block [CHECK_AVAIL 2, read_u16 (\<lambda>count. block [advance 2,
       if_then (count > 0 \<and> count < RESPB_MAX_ARGS) (block [READ_STRING_2B 0]),
       set_argc (if count > 0 then 1 else 0)])]),
   ([RESPB_OP_FAILOVER],
      block [CHECK_AVAIL 1, advance 1, set_argc 0]),
   ([RESPB_OP_SWAPDB],
      block [CHECK_AVAIL 4, advance 4, set_argc 0]),
   ([RESPB_OP_LOLWUT],
      block [CHECK_AVAIL 2, read_u16 (\<lambda>count. block [advance 2,
       if_then (count > 0 \<and> count < RESPB_MAX_ARGS) (block [READ_STRING_2B 0]),
       set_argc (if count > 0 then 1 else 0)])]),
   ([RESPB_OP_RESTORE_ASKING],
      block [READ_STRING_2B 0, CHECK_AVAIL 8, advance 8, READ_STRING_4B 1, CHECK_AVAIL 1,
       advance 1, set_argc 2]),
   ([RESPB_OP_MULTI, RESPB_OP_EXEC, RESPB_OP_DISCARD, RESPB_OP_UNWATCH],
      block [set_argc 0]),
   ([RESPB_OP_WATCH],
      block [CHECK_AVAIL 2, read_u16 (\<lambda>count. block [advance 2,
       for_loop count (\<lambda>i. i < RESPB_MAX_ARGS) (\<lambda>i. block [READ_STRING_2B i]),
       set_argc (if count < RESPB_MAX_ARGS then count else RESPB_MAX_ARGS)])]),
   ([RESPB_OP_EVAL],
      block [READ_STRING_4B 0, CHECK_AVAIL 2, read_u16 (\<lambda>numkeys. block [advance 2,
       for_loop numkeys (\<lambda>i. i + 1 < RESPB_MAX_ARGS) (\<lambda>i. block [READ_STRING_2B (i + 1)]),
       CHECK_AVAIL 2, read_u16 (\<lambda>numargs. block [advance 2,
       if_then (numargs > 0 \<and> numkeys + 1 < RESPB_MAX_ARGS) (block [READ_STRING_2B (numkeys + 1)]),
       set_argc (if numkeys + (if numargs > 0 then 1 else 0) + 1 < RESPB_MAX_ARGS then numkeys + (if numargs > 0 then 1 else 0) + 1 else RESPB_MAX_ARGS)])])]),
   ([RESPB_OP_EVALSHA],
      block [READ_STRING_2B 0, CHECK_AVAIL 2, read_u16 (\<lambda>numkeys. block [advance 2,
       for_loop numkeys (\<lambda>i. i + 1 < RESPB_MAX_ARGS) (\<lambda>i. block [READ_STRING_2B (i + 1)]),
       CHECK_AVAIL 2, read_u16 (\<lambda>numargs. block [advance 2,
       if_then (numargs > 0 \<and> numkeys + 1 < RESPB_MAX_ARGS) (block [READ_STRING_2B (numkeys + 1)]),
       set_argc (if numkeys + (if numargs > 0 then 1 else 0) + 1 < RESPB_MAX_ARGS then numkeys + (if numargs > 0 then 1 else 0) + 1 else RESPB_MAX_ARGS)])])]),
   ([RESPB_OP_EVAL_RO],
      block [READ_STRING_4B 0, CHECK_AVAIL 2, read_u16 (\<lambda>numkeys. block [advance 2,
       for_loop numkeys (\<lambda>i. i + 1 < RESPB_MAX_ARGS) (\<lambda>i. block [READ_STRING_2B (i + 1)]),
       CHECK_AVAIL 2, read_u16 (\<lambda>numargs. block [advance 2,
       if_then (numargs > 0 \<and> numkeys + 1 < RESPB_MAX_ARGS) (block [READ_STRING_2B (numkeys + 1)]),
       set_argc (if numkeys + (if numargs > 0 then 1 else 0) + 1 < RESPB_MAX_ARGS then numkeys + (if numargs > 0 then 1 else 0) + 1 else RESPB_MAX_ARGS)])])]),
   ([RESPB_OP_EVALSHA_RO],
      block [READ_STRING_2B 0, CHECK_AVAIL 2, read_u16 (\<lambda>numkeys. block [advance 2,
       for_loop numkeys (\<lambda>i. i + 1 < RESPB_MAX_ARGS) (\<lambda>i. block [READ_STRING_2B (i + 1)]),
       CHECK_AVAIL 2, read_u16 (\<lambda>numargs. block [advance 2,
       if_then (numargs > 0 \<and> numkeys + 1 < RESPB_MAX_ARGS) (block [READ_STRING_2B (numkeys + 1)]),
       set_argc (if numkeys + (if numargs > 0 then 1 else 0) + 1 < RESPB_MAX_ARGS then numkeys + (if numargs > 0 then 1 else 0) + 1 else RESPB_MAX_ARGS)])])]),
   ([RESPB_OP_SCRIPT],
      block [CHECK_AVAIL 1, advance 1, set_argc 0]),
   ([RESPB_OP_FCALL],
      block [READ_STRING_2B 0, CHECK_AVAIL 2, read_u16 (\<lambda>numkeys. block [advance 2,
       for_loop numkeys (\<lambda>i. i + 1 < RESPB_MAX_ARGS) (\<lambda>i. block [READ_STRING_2B (i + 1)]),
       CHECK_AVAIL 2, read_u16 (\<lambda>numargs. block [advance 2,
       if_then (numargs > 0 \<and> numkeys + 1 < RESPB_MAX_ARGS) (block [READ_STRING_2B (numkeys + 1)]),
       set_argc (if numkeys + (if numargs > 0 then 1 else 0) + 1 < RESPB_MAX_ARGS then numkeys + (if numargs > 0 then 1 else 0) + 1 else RESPB_MAX_ARGS)])])]),
   ([RESPB_OP_FCALL_RO],
      block [READ_STRING_2B 0, CHECK_AVAIL 2, read_u16 (\<lambda>numkeys. block [advance 2,
       for_loop numkeys (\<lambda>i. i + 1 < RESPB_MAX_ARGS) (\<lambda>i. block [READ_STRING_2B (i + 1)]),
       CHECK_AVAIL 2, read_u16 (\<lambda>numargs. block [advance 2,
       if_then (numargs > 0 \<and> numkeys + 1 < RESPB_MAX_ARGS) (block [READ_STRING_2B (numkeys + 1)]),
       set_argc (if numkeys + (if numargs > 0 then 1 else 0) + 1 < RESPB_MAX_ARGS then numkeys + (if numargs > 0 then 1 else 0) + 1 else RESPB_MAX_ARGS)])])]),
   ([RESPB_OP_FUNCTION],
      block [CHECK_AVAIL 1, advance 1, set_argc 0]),
   ([RESPB_OP_TTL, RESPB_OP_PERSIST, RESPB_OP_PTTL, RESPB_OP_TYPE, RESPB_OP_EXPIRETIME,
     RESPB_OP_PEXPIRETIME, RESPB_OP_KEYS, RESPB_OP_DUMP],
      block [READ_STRING_2B 0, set_argc 1]),
   ([RESPB_OP_EXPIREAT, RESPB_OP_PEXPIRE, RESPB_OP_PEXPIREAT],
      block [READ_STRING_2B 0, CHECK_AVAIL 9, advance 9, set_argc 1]),
   ([RESPB_OP_RENAME, RESPB_OP_RENAMENX],
      block [READ_STRING_2B 0, READ_STRING_2B 1, set_argc 2]),
   ([RESPB_OP_RANDOMKEY],
      block [set_argc 0]),
   ([RESPB_OP_SCAN],
      block [CHECK_AVAIL 8, advance 8, set_argc 0]),
   ([RESPB_OP_RESTORE],
      block [READ_STRING_2B 0, CHECK_AVAIL 8, advance 8, READ_STRING_4B 1, CHECK_AVAIL 1,
       advance 1, set_argc 2]),
   ([RESPB_OP_MIGRATE],
      block [READ_STRING_2B 0, CHECK_AVAIL 2, advance 2, READ_STRING_2B 1, CHECK_AVAIL 2,
       advance 2, CHECK_AVAIL 9, advance 9, set_argc 2]),
   ([RESPB_OP_MOVE],
      block [READ_STRING_2B 0, CHECK_AVAIL 2, advance 2, set_argc 1]),
   ([RESPB_OP_COPY],
      block [READ_STRING_2B 0, READ_STRING_2B 1, CHECK_AVAIL 3, advance 3, set_argc 2]),
   ([RESPB_OP_SORT, RESPB_OP_SORT_RO],
      block [READ_STRING_2B 0, set_argc 1]),
   ([RESPB_OP_TOUCH],
      block [CHECK_AVAIL 2, read_u16 (\<lambda>count. block [advance 2,
       for_loop count (\<lambda>i. i < RESPB_MAX_ARGS) (\<lambda>i. block [READ_STRING_2B i]),
       set_argc (if count < RESPB_MAX_ARGS then count else RESPB_MAX_ARGS)])]),
   ([RESPB_OP_OBJECT],
      block [CHECK_AVAIL 1, advance 1, READ_STRING_2B 0, set_argc 1]),
   ([RESPB_OP_WAIT],
      block [CHECK_AVAIL 16, advance 16, set_argc 0]),
   ([RESPB_OP_WAITAOF],
      block [CHECK_AVAIL 24, advance 24, set_argc 0]),
   ([RESPB_OP_SETBIT],
      block [READ_STRING_2B 0, CHECK_AVAIL 9, advance 9, set_argc 1]),
   ([RESPB_OP_GETBIT],
      block [READ_STRING_2B 0, CHECK_AVAIL 8, advance 8, set_argc 1]),
   ([RESPB_OP_BITCOUNT],
      block [READ_STRING_2B 0, set_argc 1]),
   ([RESPB_OP_BITPOS],
      block [READ_STRING_2B 0, CHECK_AVAIL 1, advance 1, set_argc 1]),
   ([RESPB_OP_BITOP],
      block [CHECK_AVAIL 1, advance 1, READ_STRING_2B 0, CHECK_AVAIL 2,
       read_u16 (\<lambda>count. block [advance 2,
       for_loop count (\<lambda>i. i + 1 < RESPB_MAX_ARGS) (\<lambda>i. block [READ_STRING_2B (i + 1)]),
       set_argc (1 + (if count < RESPB_MAX_ARGS - 1 then count else RESPB_MAX_ARGS - 1))])]),
   ([RESPB_OP_BITFIELD, RESPB_OP_BITFIELD_RO],
      block [READ_STRING_2B 0, set_argc 1]),
   ([RESPB_OP_PFADD],
      block [READ_STRING_2B 0, CHECK_AVAIL 2, read_u16 (\<lambda>count. block [advance 2,
       for_loop count (\<lambda>i. i + 1 < RESPB_MAX_ARGS) (\<lambda>i. block [READ_STRING_2B (i + 1)]),
       set_argc (1 + (if count < RESPB_MAX_ARGS - 1 then count else RESPB_MAX_ARGS - 1))])]),
   ([RESPB_OP_PFCOUNT],
      block [CHECK_AVAIL 2, read_u16 (\<lambda>count. block [advance 2,
       for_loop count (\<lambda>i. i < RESPB_MAX_ARGS) (\<lambda>i. block [READ_STRING_2B i]),
       set_argc (if count < RESPB_MAX_ARGS then count else RESPB_MAX_ARGS)])]),
   ([RESPB_OP_PFMERGE],
      block [READ_STRING_2B 0, CHECK_AVAIL 2, read_u16 (\<lambda>count. block [advance 2,
       for_loop count (\<lambda>i. i + 1 < RESPB_MAX_ARGS) (\<lambda>i. block [READ_STRING_2B (i + 1)]),
       set_argc (1 + (if count < RESPB_MAX_ARGS - 1 then count else RESPB_MAX_ARGS - 1))])]),
   ([RESPB_OP_PFDEBUG],
      block [READ_STRING_2B 0, READ_STRING_2B 1, set_argc 2]),
   ([RESPB_OP_PFSELFTEST],
      block [set_argc 0]),
   ([RESPB_OP_GEOADD],
      block [READ_STRING_2B 0, CHECK_AVAIL 3, advance 3, set_argc 1]),
   ([RESPB_OP_GEODIST],
      block [READ_STRING_2B 0, READ_STRING_2B 1, READ_STRING_2B 2, CHECK_AVAIL 1, advance 1,
       set_argc 3]),
   ([RESPB_OP_GEOHASH, RESPB_OP_GEOPOS],
      block [READ_STRING_2B 0, CHECK_AVAIL 2, read_u16 (\<lambda>count. block [advance 2,
       for_loop count (\<lambda>i. i + 1 < RESPB_MAX_ARGS) (\<lambda>i. block [READ_STRING_2B (i + 1)]),
       set_argc (1 + (if count < RESPB_MAX_ARGS - 1 then count else RESPB_MAX_ARGS - 1))])]),
   ([RESPB_OP_GEORADIUS, RESPB_OP_GEORADIUS_RO],
      block [READ_STRING_2B 0, CHECK_AVAIL 18, advance 18, set_argc 1]),
   ([RESPB_OP_GEORADIUSBYMEMBER, RESPB_OP_GEORADIUSBYMEMBER_RO],
      block [READ_STRING_2B 0, READ_STRING_2B 1, CHECK_AVAIL 10, advance 10, set_argc 2]),
   ([RESPB_OP_GEOSEARCH],
      block [READ_STRING_2B 0, CHECK_AVAIL 1, advance 1, set_argc 1]),
   ([RESPB_OP_GEOSEARCHSTORE],
      block [READ_STRING_2B 0, READ_STRING_2B 1, CHECK_AVAIL 1, advance 1, set_argc 2]),
   ([RESPB_OP_XADD],
      block [READ_STRING_2B 0, READ_STRING_2B 1, CHECK_AVAIL 2,
       read_u16 (\<lambda>count. block [advance 2,
       if_then (count > 0) (block [READ_STRING_2B 2]),
       set_argc (if count > 0 then 3 else 2)])]),
   ([RESPB_OP_XLEN],
      block [READ_STRING_2B 0, set_argc 1]),
   ([RESPB_OP_XRANGE, RESPB_OP_XREVRANGE],
      block [READ_STRING_2B 0, READ_STRING_2B 1, READ_STRING_2B 2, set_argc 3]),
   ([RESPB_OP_XREAD],
      block [CHECK_AVAIL 2, read_u16 (\<lambda>numkeys. block [advance 2,
       for_loop numkeys (\<lambda>i. i * 2 + 1 < RESPB_MAX_ARGS) (\<lambda>i. block [READ_STRING_2B (i * 2),
       READ_STRING_2B (i * 2 + 1)]),
       set_argc (if numkeys * 2 < RESPB_MAX_ARGS then numkeys * 2 else RESPB_MAX_ARGS)])]),
   ([RESPB_OP_XREADGROUP],
      block [READ_STRING_2B 0, READ_STRING_2B 1, CHECK_AVAIL 2,
       read_u16 (\<lambda>numkeys. block [advance 2,
       for_loop numkeys (\<lambda>i. i * 2 + 2 < RESPB_MAX_ARGS) (\<lambda>i. block [READ_STRING_2B (i * 2 + 2),
       READ_STRING_2B (i * 2 + 3)]),
       set_argc (2 + (if numkeys * 2 < RESPB_MAX_ARGS - 2 then numkeys * 2 else RESPB_MAX_ARGS - 2))])]),
   ([RESPB_OP_XDEL],
      block [READ_STRING_2B 0, CHECK_AVAIL 2, read_u16 (\<lambda>count. block [advance 2,
       if_then (count > 0) (block [READ_STRING_2B 1]),
       set_argc (if count > 0 then 2 else 1)])]),
   ([RESPB_OP_XTRIM],
      block [READ_STRING_2B 0, CHECK_AVAIL 10, advance 10, set_argc 1]),
   ([RESPB_OP_XACK],
      block [READ_STRING_2B 0, READ_STRING_2B 1, CHECK_AVAIL 2,
       read_u16 (\<lambda>count. block [advance 2,
       if_then (count > 0) (block [READ_STRING_2B 2]),
       set_argc (if count > 0 then 3 else 2)])]),
   ([RESPB_OP_XPENDING],
      block [READ_STRING_2B 0, READ_STRING_2B 1, set_argc 2]),
   ([RESPB_OP_XCLAIM],
      block [READ_STRING_2B 0, READ_STRING_2B 1, READ_STRING_2B 2, CHECK_AVAIL 8, advance 8,
       CHECK_AVAIL 2, read_u16 (\<lambda>count. block [advance 2,
       if_then (count > 0) (block [READ_STRING_2B 3]), CHECK_AVAIL 1, advance 1,
       set_argc (if count > 0 then 4 else 3)])]),
   ([RESPB_OP_XAUTOCLAIM],
      block [READ_STRING_2B 0, READ_STRING_2B 1, READ_STRING_2B 2, CHECK_AVAIL 8, advance 8,
       READ_STRING_2B 3, set_argc 4]),
   ([RESPB_OP_XINFO],
      block [CHECK_AVAIL 1, advance 1, READ_STRING_2B 0, set_argc 1]),
   ([RESPB_OP_XGROUP],
      block [CHECK_AVAIL 1, advance 1, READ_STRING_2B 0, set_argc 1]),
   ([RESPB_OP_XSETID],
      block [READ_STRING_2B 0, READ_STRING_2B 1, set_argc 2]),
   ([RESPB_OP_PUBLISH],
      block [READ_STRING_2B 0, READ_STRING_4B 1, set_argc 2]),
   ([RESPB_OP_SPUBLISH],
      block [READ_STRING_2B 0, READ_STRING_4B 1, set_argc 2]),
   ([RESPB_OP_SUBSCRIBE, RESPB_OP_UNSUBSCRIBE, RESPB_OP_SSUBSCRIBE, RESPB_OP_SUNSUBSCRIBE],
      block [CHECK_AVAIL 2, read_u16 (\<lambda>count. block [advance 2,
       for_loop count (\<lambda>i. i < RESPB_MAX_ARGS) (\<lambda>i. block [READ_STRING_2B i]),
       set_argc (if count < RESPB_MAX_ARGS then count else RESPB_MAX_ARGS)])]),
   ([RESPB_OP_PSUBSCRIBE, RESPB_OP_PUNSUBSCRIBE],
      block [CHECK_AVAIL 2, read_u16 (\<lambda>count. block [advance 2,
       for_loop count (\<lambda>i. i < RESPB_MAX_ARGS) (\<lambda>i. block [READ_STRING_2B i]),
       set_argc (if count < RESPB_MAX_ARGS then count else RESPB_MAX_ARGS)])]),
   ([RESPB_OP_PUBSUB],
      block [CHECK_AVAIL 1, advance 1, set_argc 0]),
   ([RESPB_OP_MODULE],
      respb_parse_module),
   ([RESPB_OP_RESP_PASSTHROUGH],
      respb_parse_resp_passthrough)
  ]"

fun switch_lookup :: "16 word \<Rightarrow> (16 word list \<times> stmt) list \<Rightarrow> stmt option" where
  "switch_lookup op [] = None"
| "switch_lookup op ((labels, body) # rest) =
     (if op \<in> set labels then Some body else switch_lookup op rest)"

subsection \<open>\<^verbatim>\<open>respb_parser_init\<close> and \<^verbatim>\<open>respb_parse_command\<close>\<close>

definition respb_parser_init :: "byte list \<Rightarrow> respb_parser" where
  "respb_parser_init buf = \<lparr>buffer = buf, pos = 0\<rparr>"

text \<open>
  The result of a call is the returned \<^verbatim>\<open>int\<close> with the parser and the command record as
  the call leaves them, or the fault. The command record is an out-parameter: the fields
  that the call does not write keep what the caller's memory held.
\<close>

definition respb_parse_command ::
    "respb_parser \<Rightarrow> respb_command \<Rightarrow> fault + (int \<times> respb_parser \<times> respb_command)" where
  "respb_parse_command parser cmd =
     (if size_add (pos parser) 4 > buffer_len parser then Inr (0, parser, cmd)
      else
        case (read_u16_be (buffer parser) (pos parser),
              read_u16_be (buffer parser) (pos parser + 2)) of
          (Some op, Some mux) \<Rightarrow>
            let cmd1 = cmd\<lparr>opcode := op, mux_id := mux\<rparr>;
                parser1 = parser\<lparr>pos := size_add (pos parser) 4\<rparr>;
                cmd2 = cmd1\<lparr>argc := 0, raw_payload := pos parser1\<rparr>;
                payload_start = pos parser1
            in (case switch_lookup op respb_switch of
                  None \<Rightarrow> Inr (- 1, parser1, cmd2)
                | Some body \<Rightarrow>
                    (case body (parser1, cmd2) of
                       Fault f \<Rightarrow> Inl f
                     | Return r (parser', cmd') \<Rightarrow> Inr (r, parser', cmd')
                     | Cont (parser', cmd') \<Rightarrow>
                         Inr (1, parser',
                              cmd'\<lparr>raw_payload_len := size_sub (pos parser') payload_start\<rparr>)))
        | _ \<Rightarrow> Inl ReadPastBuffer)"

subsection \<open>Well-formed parser states and what every statement preserves\<close>

text \<open>
  The cursor of a parser lies within its slice: \<^verbatim>\<open>respb_parser_init\<close> sets it to 0 and,
  as shown below, every statement keeps it there. A C object is smaller than
  \<open>2 ^ 63\<close> bytes (\<^verbatim>\<open>PTRDIFF_MAX\<close>), and with both facts no cursor sum wraps around.
\<close>

definition wf_state :: "pstate \<Rightarrow> bool" where
  "wf_state s \<longleftrightarrow> pos (fst s) \<le> buffer_len (fst s) \<and> buffer_len (fst s) < 2 ^ 63 \<and>
            argc (snd s) \<le> RESPB_MAX_ARGS"

definition follows :: "pstate \<Rightarrow> pstate \<Rightarrow> bool" where
  "follows s s' \<longleftrightarrow>
     wf_state s' \<and> buffer (fst s') = buffer (fst s) \<and> pos (fst s) \<le> pos (fst s') \<and>
     opcode (snd s') = opcode (snd s) \<and> mux_id (snd s') = mux_id (snd s) \<and>
     raw_payload (snd s') = raw_payload (snd s)"

definition good :: "pstate \<Rightarrow> pstate flow \<Rightarrow> bool" where
  "good s f = (case f of Cont s' \<Rightarrow> follows s s' | Return r s' \<Rightarrow> r = 0 \<and> follows s s' | Fault x \<Rightarrow> False)"

text \<open>
  \<open>ok_with m c\<close>: from a well-formed state with at least \<open>m\<close> bytes left after the
  cursor, the statement \<open>c\<close> does not fault, returns nothing but 0, and leaves a
  well-formed state on the same buffer with the cursor no further back.
\<close>

definition ok_with :: "nat \<Rightarrow> stmt \<Rightarrow> bool" where
  "ok_with m c \<longleftrightarrow> (\<forall>s. wf_state s \<and> pos (fst s) + m \<le> buffer_len (fst s) \<longrightarrow> good s (c s))"

lemma ok_withD:
  "ok_with m c \<Longrightarrow> wf_state s \<Longrightarrow> pos (fst s) + m \<le> buffer_len (fst s) \<Longrightarrow> good s (c s)"
  unfolding ok_with_def by blast

lemma follows_refl: "wf_state s \<Longrightarrow> follows s s"
  by (simp add: follows_def)

lemma good_trans: "follows s s' \<Longrightarrow> good s' f \<Longrightarrow> good s f"
  by (auto simp: good_def follows_def split: flow.splits)

lemma size_add_small: "a + b < 2 ^ 64 \<Longrightarrow> size_add a b = a + b"
  by (simp add: size_add_def)

lemma ok_with_mono: "ok_with 0 c \<Longrightarrow> ok_with m c"
  by (simp add: ok_with_def)

lemma ok_nil: "ok_with m (block [])"
  by (simp add: ok_with_def good_def follows_refl)

lemma ok_step:
  assumes "\<And>s. wf_state s \<Longrightarrow> pos (fst s) + m \<le> buffer_len (fst s) \<Longrightarrow>
             (case c s of Cont s' \<Rightarrow> follows s s' \<and> pos (fst s') + n \<le> buffer_len (fst s')
                        | Return r s' \<Rightarrow> r = 0 \<and> follows s s' | Fault x \<Rightarrow> False)"
      and "ok_with n (block rest)"
  shows "ok_with m (block (c # rest))"
  unfolding ok_with_def
proof (intro allI impI)
  fix s assume h: "wf_state s \<and> pos (fst s) + m \<le> buffer_len (fst s)"
  from assms(1) [of s] h
  have c: "case c s of Cont s' \<Rightarrow> follows s s' \<and> pos (fst s') + n \<le> buffer_len (fst s')
                     | Return r s' \<Rightarrow> r = 0 \<and> follows s s' | Fault x \<Rightarrow> False"
    by simp
  show "good s (block (c # rest) s)"
  proof (cases "c s")
    case (Cont s')
    with c have f: "follows s s'" and a: "pos (fst s') + n \<le> buffer_len (fst s')" by simp_all
    from f have "wf_state s'" by (simp add: follows_def)
    with a assms(2) have "good s' (block rest s')" by (blast intro: ok_withD)
    with f have "good s (block rest s')" by (rule good_trans)
    with Cont show ?thesis by simp
  next
    case (Return r s')
    with c show ?thesis by (simp add: good_def)
  next
    case (Fault x)
    with c show ?thesis by simp
  qed
qed

lemma ok_sub:
  assumes "ok_with 0 c" and "ok_with 0 (block rest)"
  shows "ok_with m (block (c # rest))"
proof (rule ok_step [where n = 0])
  fix s assume "wf_state s" "pos (fst s) + m \<le> buffer_len (fst s)"
  with assms(1) have "good s (c s)" by (auto intro: ok_withD)
  then show "case c s of Cont s' \<Rightarrow> follows s s' \<and> pos (fst s') + 0 \<le> buffer_len (fst s')
                       | Return r s' \<Rightarrow> r = 0 \<and> follows s s' | Fault x \<Rightarrow> False"
    by (auto simp: good_def follows_def wf_state_def split: flow.splits)
qed (rule assms(2))

lemma ok_CHECK_AVAIL:
  assumes "n < 2 ^ 63" and "ok_with n (block rest)"
  shows "ok_with m (block (CHECK_AVAIL n # rest))"
proof (rule ok_step [where n = n])
  fix s :: pstate assume w: "wf_state s" and "pos (fst s) + m \<le> buffer_len (fst s)"
  obtain p c where s: "s = (p, c)" by (cases s)
  from w s have "pos p + n < 2 ^ 64" using assms(1) by (simp add: wf_state_def)
  then have "size_add (pos p) n = pos p + n" by (rule size_add_small)
  with w s show "case CHECK_AVAIL n s of
                   Cont s' \<Rightarrow> follows s s' \<and> pos (fst s') + n \<le> buffer_len (fst s')
                 | Return r s' \<Rightarrow> r = 0 \<and> follows s s' | Fault x \<Rightarrow> False"
    by (simp add: follows_refl)
qed (rule assms(2))

lemma ok_advance:
  assumes "n \<le> m" and "ok_with (m - n) (block rest)"
  shows "ok_with m (block (advance n # rest))"
proof (rule ok_step [where n = "m - n"])
  fix s :: pstate assume w: "wf_state s" and a: "pos (fst s) + m \<le> buffer_len (fst s)"
  obtain p c where s: "s = (p, c)" by (cases s)
  from w a s have "pos p + n < 2 ^ 64" using assms(1) by (simp add: wf_state_def)
  then have "size_add (pos p) n = pos p + n" by (rule size_add_small)
  with w a s assms(1) show "case advance n s of
                   Cont s' \<Rightarrow> follows s s' \<and> pos (fst s') + (m - n) \<le> buffer_len (fst s')
                 | Return r s' \<Rightarrow> r = 0 \<and> follows s s' | Fault x \<Rightarrow> False"
    by (simp add: follows_def wf_state_def)
qed (rule assms(2))

lemma ok_field_update:
  assumes "\<And>p c. \<exists>c'. f (p, c) = Cont (p, c') \<and> argc c' \<le> max (argc c) a \<and> opcode c' = opcode c \<and>
                       mux_id c' = mux_id c \<and> raw_payload c' = raw_payload c"
      and "a \<le> RESPB_MAX_ARGS" and "ok_with m (block rest)"
  shows "ok_with m (block (f # rest))"
proof (rule ok_step [where n = m])
  fix s :: pstate assume w: "wf_state s" and a: "pos (fst s) + m \<le> buffer_len (fst s)"
  obtain p c where s: "s = (p, c)" by (cases s)
  from assms(1) [of p c] obtain c' where
    "f (p, c) = Cont (p, c')" "argc c' \<le> max (argc c) a" "opcode c' = opcode c"
    "mux_id c' = mux_id c" "raw_payload c' = raw_payload c" by blast
  with w a s assms(2) show "case f s of
                   Cont s' \<Rightarrow> follows s s' \<and> pos (fst s') + m \<le> buffer_len (fst s')
                 | Return r s' \<Rightarrow> r = 0 \<and> follows s s' | Fault x \<Rightarrow> False"
    by (auto simp: follows_def wf_state_def)
qed (rule assms(3))

lemma ok_set_argc:
  "n \<le> RESPB_MAX_ARGS \<Longrightarrow> ok_with m (block rest) \<Longrightarrow> ok_with m (block (set_argc n # rest))"
  by (rule ok_field_update [where a = n]) simp_all

lemma ok_store_arg:
  assumes "i < RESPB_MAX_ARGS" and "ok_with m (block rest)"
  shows "ok_with m (block (store_arg i l # rest))"
  by (rule ok_field_update [where a = 0]) (use assms in simp_all)

lemma ok_set_module_subcommand:
  "ok_with m (block rest) \<Longrightarrow> ok_with m (block (set_module_subcommand v # rest))"
  by (rule ok_field_update [where a = 0]) simp_all

lemma ok_set_module_ids:
  "ok_with m (block rest) \<Longrightarrow> ok_with m (block (set_module_ids # rest))"
  by (rule ok_field_update [where a = 0]) simp_all

lemma ok_set_resp_length:
  "ok_with m (block rest) \<Longrightarrow> ok_with m (block (set_resp_length v # rest))"
  by (rule ok_field_update [where a = 0]) simp_all

lemma ok_set_resp_data:
  "ok_with m (block rest) \<Longrightarrow> ok_with m (block (set_resp_data # rest))"
  by (rule ok_field_update [where a = 0]) simp_all

lemma read_u16_be_Some:
  "i + 2 \<le> length buf \<Longrightarrow> \<exists>v. read_u16_be buf i = Some v"
  by (simp add: read_u16_be_def byte_at_def)

lemma read_u32_be_Some:
  "i + 4 \<le> length buf \<Longrightarrow> \<exists>v. read_u32_be buf i = Some v"
  by (simp add: read_u32_be_def byte_at_def)

lemma ok_read_u8:
  assumes "1 \<le> m" and "\<And>v. ok_with m (k v)"
  shows "ok_with m (block [read_u8 k])"
  unfolding ok_with_def
proof (intro allI impI)
  fix s :: pstate assume h: "wf_state s \<and> pos (fst s) + m \<le> buffer_len (fst s)"
  obtain p c where s: "s = (p, c)" by (cases s)
  from h s assms(1) have "pos p < length (buffer p)" by simp
  then have r: "byte_at (buffer p) (pos p) = Some (buffer p ! pos p)" by (simp add: byte_at_def)
  from assms(2) h have "good s (k (buffer p ! pos p) s)" by (blast intro: ok_withD)
  with r s show "good s (block [read_u8 k] s)"
    by (cases "k (buffer p ! pos p) (p, c)") (simp_all add: good_def)
qed

lemma ok_read_u16:
  assumes "2 \<le> m" and "\<And>v. v < 65536 \<Longrightarrow> ok_with m (k v)"
  shows "ok_with m (block [read_u16 k])"
  unfolding ok_with_def
proof (intro allI impI)
  fix s :: pstate assume h: "wf_state s \<and> pos (fst s) + m \<le> buffer_len (fst s)"
  obtain p c where s: "s = (p, c)" by (cases s)
  from h s assms(1) have "pos p + 2 \<le> length (buffer p)" by simp
  then obtain v where r: "read_u16_be (buffer p) (pos p) = Some v"
    using read_u16_be_Some by blast
  have "unat v < 2 ^ 16" using unsigned_less [of v, where ?'a = nat] by simp
  then have "unat v < 65536" by simp
  with assms(2) h have "good s (k (unat v) s)" by (blast intro: ok_withD)
  with r s show "good s (block [read_u16 k] s)"
    by (cases "k (unat v) (p, c)") (simp_all add: good_def)
qed

lemma ok_read_u32:
  assumes "4 \<le> m" and "\<And>v. ok_with m (k v)"
  shows "ok_with m (block [read_u32 k])"
  unfolding ok_with_def
proof (intro allI impI)
  fix s :: pstate assume h: "wf_state s \<and> pos (fst s) + m \<le> buffer_len (fst s)"
  obtain p c where s: "s = (p, c)" by (cases s)
  from h s assms(1) have "pos p + 4 \<le> length (buffer p)" by simp
  then obtain v where r: "read_u32_be (buffer p) (pos p) = Some v"
    using read_u32_be_Some by blast
  from assms(2) h have "good s (k v s)" by (blast intro: ok_withD)
  with r s show "good s (block [read_u32 k] s)"
    by (cases "k v (p, c)") (simp_all add: good_def)
qed

lemma unat32_small: "unat (v :: 32 word) < 2 ^ 63"
proof -
  have "unat v < 2 ^ 32" using unsigned_less [of v, where ?'a = nat] by simp
  also have "(2::nat) ^ 32 < 2 ^ 63" by simp
  finally show ?thesis .
qed

lemmas unat32_small' = unat32_small [simplified]

lemma ok_READ_STRING_2B_single: "i < RESPB_MAX_ARGS \<Longrightarrow> ok_with 0 (READ_STRING_2B i)"
  unfolding READ_STRING_2B_def
  by (intro ok_CHECK_AVAIL ok_read_u16 ok_advance ok_store_arg ok_nil) simp_all

lemma ok_READ_STRING_4B_single: "i < RESPB_MAX_ARGS \<Longrightarrow> ok_with 0 (READ_STRING_4B i)"
  unfolding READ_STRING_4B_def
  by (intro ok_CHECK_AVAIL ok_read_u32 ok_advance ok_store_arg ok_nil) (simp_all add: unat32_small')

lemma ok_READ_STRING_2B:
  "i < RESPB_MAX_ARGS \<Longrightarrow> ok_with 0 (block rest) \<Longrightarrow> ok_with m (block (READ_STRING_2B i # rest))"
  by (rule ok_sub [OF ok_READ_STRING_2B_single])

lemma ok_READ_STRING_4B:
  "i < RESPB_MAX_ARGS \<Longrightarrow> ok_with 0 (block rest) \<Longrightarrow> ok_with m (block (READ_STRING_4B i # rest))"
  by (rule ok_sub [OF ok_READ_STRING_4B_single])

lemma ok_if_then:
  assumes "b \<Longrightarrow> ok_with 0 body" and "ok_with 0 (block rest)"
  shows "ok_with m (block (if_then b body # rest))"
proof (rule ok_sub [OF _ assms(2)])
  show "ok_with 0 (if_then b body)"
    using assms(1) unfolding ok_with_def if_then_def
    by (cases b) (auto simp: good_def follows_refl simp del: split_paired_All)
qed

lemma ok_if_pos_lt_buffer_len:
  assumes "ok_with 0 body" and "ok_with 0 (block rest)"
  shows "ok_with m (block (if_pos_lt_buffer_len body # rest))"
proof (rule ok_sub [OF _ assms(2)])
  show "ok_with 0 (if_pos_lt_buffer_len body)"
    unfolding ok_with_def
  proof (intro allI impI)
    fix s :: pstate assume h: "wf_state s \<and> pos (fst s) + 0 \<le> buffer_len (fst s)"
    obtain p c where s: "s = (p, c)" by (cases s)
    from h have "good s (body s)" using assms(1) by (auto intro: ok_withD)
    with h s show "good s (if_pos_lt_buffer_len body s)"
      by (simp add: good_def follows_refl)
  qed
qed

lemma good_for_loop_from:
  "\<forall>i. guard i \<longrightarrow> ok_with 0 (body i) \<Longrightarrow> wf_state s \<Longrightarrow>
   good s (for_loop_from i n guard body s)"
proof (induction i n guard body s rule: for_loop_from.induct)
  case (1 i n guard body s)
  show ?case
  proof (cases "i < n \<and> guard i")
    case True
    then have b: "ok_with 0 (body i)" using "1.prems"(1) by simp
    have g: "good s (body i s)"
      using ok_withD [OF b "1.prems"(2)] "1.prems"(2) by (simp add: wf_state_def)
    show ?thesis
    proof (cases "body i s")
      case (Cont s')
      with g have f: "follows s s'" by (simp add: good_def)
      then have "wf_state s'" by (simp add: follows_def)
      with "1.IH" [OF True Cont "1.prems"(1)]
      have "good s' (for_loop_from (i + 1) n guard body s')" by simp
      with f have "good s (for_loop_from (i + 1) n guard body s')" by (rule good_trans)
      with True Cont show ?thesis by (simp add: for_loop_from.simps [of i])
    next
      case (Return r s')
      with g True show ?thesis by (simp add: for_loop_from.simps [of i])
    next
      case (Fault x)
      with g show ?thesis by (simp add: good_def)
    qed
  next
    case False
    then have "for_loop_from i n guard body s = Cont s"
      by (subst for_loop_from.simps) auto
    with "1.prems"(2) show ?thesis
      by (simp add: good_def follows_refl)
  qed
qed

lemma ok_for_loop:
  assumes "\<And>i. guard i \<Longrightarrow> ok_with 0 (body i)" and "ok_with 0 (block rest)"
  shows "ok_with m (block (for_loop n guard body # rest))"
proof (rule ok_sub [OF _ assms(2)])
  show "ok_with 0 (for_loop n guard body)"
    unfolding ok_with_def for_loop_def
    using good_for_loop_from [of guard body] assms(1) by blast
qed

lemmas ok_rules =
  ok_nil ok_CHECK_AVAIL ok_advance ok_set_argc ok_READ_STRING_2B ok_READ_STRING_4B
  ok_if_then ok_if_pos_lt_buffer_len ok_for_loop ok_read_u8 ok_read_u16 ok_read_u32
  ok_set_module_subcommand ok_set_module_ids ok_set_resp_length ok_set_resp_data

lemma ok_respb_module_payload: "ok_with 0 respb_module_payload"
proof -
  have a: "ok_with 0 (block [READ_STRING_2B 0, READ_STRING_2B 1, READ_STRING_4B 2,
                             CHECK_AVAIL 1, advance 1, set_argc 3])"
    by (intro ok_rules) simp_all
  have b: "ok_with 0 (block [READ_STRING_2B 0, CHECK_AVAIL 2,
                  read_u16 (\<lambda>numpaths. block [advance 2,
                    for_loop numpaths (\<lambda>i. i + 1 < RESPB_MAX_ARGS) (\<lambda>i. block [READ_STRING_2B (i + 1)]),
                    set_argc (1 + (if numpaths < RESPB_MAX_ARGS - 1 then numpaths else RESPB_MAX_ARGS - 1))])])"
    by (intro ok_rules) simp_all
  have c: "ok_with 0 (block [READ_STRING_2B 0, set_argc 1])"
    by (intro ok_rules) simp_all
  have d: "ok_with 0 (block [READ_STRING_2B 0, READ_STRING_2B 1, set_argc 2])"
    by (intro ok_rules) simp_all
  show ?thesis
    unfolding ok_with_def
  proof (intro allI impI)
    fix s :: pstate assume h: "wf_state s \<and> pos (fst s) + 0 \<le> buffer_len (fst s)"
    obtain p c where s: "s = (p, c)" by (cases s)
    from h have w: "wf_state (p, c)" and v: "pos (fst (p, c)) + 0 \<le> buffer_len (fst (p, c))"
      by (simp_all add: s)
    note g = ok_withD [OF a w v] ok_withD [OF b w v] ok_withD [OF c w v] ok_withD [OF d w v]
    from g show "good s (respb_module_payload s)"
      unfolding s by (simp del: block.simps)
  qed
qed

lemma ok_respb_parse_module: "ok_with 0 respb_parse_module"
  unfolding respb_parse_module_def
  by (intro ok_rules ok_sub [OF ok_respb_module_payload]) simp_all

lemma ok_respb_parse_resp_passthrough: "ok_with 0 respb_parse_resp_passthrough"
  unfolding respb_parse_resp_passthrough_def
  by (intro ok_rules) (simp_all add: unat32_small')

lemma ok_respb_switch: "\<forall>(labels, body) \<in> set respb_switch. ok_with 0 body"
  unfolding respb_switch_def
  by (simp del: block.simps, intro conjI ok_rules ok_respb_parse_module ok_respb_parse_resp_passthrough)
     simp_all


subsection \<open>What a call of \<^verbatim>\<open>respb_parse_command\<close> does\<close>

lemma switch_lookup_Some:
  "switch_lookup op tbl = Some body \<Longrightarrow> \<exists>labels. (labels, body) \<in> set tbl \<and> op \<in> set labels"
  by (induction tbl) (auto split: if_splits)

lemma switch_lookup_ok: "switch_lookup op respb_switch = Some body \<Longrightarrow> ok_with 0 body"
  using ok_respb_switch switch_lookup_Some by fastforce

lemma size_sub_small:
  assumes "b \<le> a" and "a < 2 ^ 64"
  shows "size_sub a b = a - b"
proof -
  have b: "b mod 2 ^ 64 = b" using assms by simp
  have "a + 2 ^ 64 - b = (a - b) + 2 ^ 64" using assms(1) by simp
  then have "(a + 2 ^ 64 - b) mod 2 ^ 64 = (a - b) mod 2 ^ 64" by (metis mod_add_self2)
  also have "\<dots> = a - b" using assms by simp
  finally show ?thesis unfolding size_sub_def b .
qed

lemma respb_parse_command_short:
  assumes "pos p < 2 ^ 63" and "buffer_len p < pos p + 4"
  shows "respb_parse_command p cmd = Inr (0, p, cmd)"
proof -
  have "pos p + 4 < 2 ^ 64" using assms(1) by simp
  then have "size_add (pos p) 4 = pos p + 4" by (rule size_add_small)
  with assms(2) show ?thesis by (simp add: respb_parse_command_def)
qed

text \<open>
  The call on a well-formed parser with the four header bytes in the slice: it returns
  1, 0 or -1 without a fault; the cursor ends at least four bytes on and within the
  slice; \<^verbatim>\<open>raw_payload\<close> is the offset right after the four header bytes; on 1 the length
  of the raw payload is the distance from there to the cursor; and -1 comes from the
  \<^verbatim>\<open>default\<close> branch alone, with the cursor right after the header.
\<close>

lemma respb_parse_command_long:
  assumes len: "buffer_len p < 2 ^ 63" and hdr: "pos p + 4 \<le> buffer_len p"
  shows "\<exists>r p' c' op mux.
           respb_parse_command p cmd = Inr (r, p', c') \<and>
           read_u16_be (buffer p) (pos p) = Some op \<and>
           read_u16_be (buffer p) (pos p + 2) = Some mux \<and>
           opcode c' = op \<and> mux_id c' = mux \<and>
           buffer p' = buffer p \<and> pos p + 4 \<le> pos p' \<and> pos p' \<le> buffer_len p \<and>
           argc c' \<le> RESPB_MAX_ARGS \<and> raw_payload c' = pos p + 4 \<and>
           (r = 1 \<and> switch_lookup op respb_switch \<noteq> None \<and>
              raw_payload_len c' = pos p' - (pos p + 4) \<or>
            r = 0 \<and> switch_lookup op respb_switch \<noteq> None \<or>
            r = - 1 \<and> switch_lookup op respb_switch = None \<and> pos p' = pos p + 4)"
proof -
  from hdr obtain op where op: "read_u16_be (buffer p) (pos p) = Some op"
    using read_u16_be_Some [of "pos p" "buffer p"] by auto
  from hdr obtain mux where mux: "read_u16_be (buffer p) (pos p + 2) = Some mux"
    using read_u16_be_Some [of "pos p + 2" "buffer p"] by auto
  have "pos p + 4 < 2 ^ 64" using len hdr by simp
  then have add: "size_add (pos p) 4 = pos p + 4" by (rule size_add_small)
  let ?p1 = "p\<lparr>pos := pos p + 4\<rparr>"
  let ?c2 = "cmd\<lparr>opcode := op, mux_id := mux, argc := 0, raw_payload := pos p + 4\<rparr>"
  have w: "wf_state (?p1, ?c2)" using len hdr by (simp add: wf_state_def)
  show ?thesis
  proof (cases "switch_lookup op respb_switch")
    case None
    then have "respb_parse_command p cmd = Inr (- 1, ?p1, ?c2)"
      using op mux add hdr by (simp add: respb_parse_command_def Let_def)
    with op mux None hdr show ?thesis by simp
  next
    case (Some body)
    then have "ok_with 0 body" by (rule switch_lookup_ok)
    from ok_withD [OF this w] hdr have g: "good (?p1, ?c2) (body (?p1, ?c2))" by simp
    show ?thesis
    proof (cases "body (?p1, ?c2)")
      case (Cont s')
      obtain p' c' where s': "s' = (p', c')" by (cases s')
      from g Cont s' have f: "follows (?p1, ?c2) (p', c')" by (simp add: good_def)
      then have b: "buffer p' = buffer p" and m: "pos p + 4 \<le> pos p'"
        and e: "pos p' \<le> buffer_len p" and a: "argc c' \<le> RESPB_MAX_ARGS"
        and o: "opcode c' = op" and x: "mux_id c' = mux" and rp: "raw_payload c' = pos p + 4"
        by (auto simp: follows_def wf_state_def)
      from e len have "pos p' < 2 ^ 64" by simp
      with m have sub: "size_sub (pos p') (pos p + 4) = pos p' - (pos p + 4)"
        by (rule size_sub_small)
      have "respb_parse_command p cmd =
              Inr (1, p', c'\<lparr>raw_payload_len := pos p' - (pos p + 4)\<rparr>)"
        using op mux add hdr Some Cont s' sub by (simp add: respb_parse_command_def Let_def)
      with op mux Some b m e a o x rp show ?thesis by simp
    next
      case (Return r s')
      obtain p' c' where s': "s' = (p', c')" by (cases s')
      from g Return s' have r: "r = 0" and f: "follows (?p1, ?c2) (p', c')"
        by (simp_all add: good_def)
      from f have b: "buffer p' = buffer p" and m: "pos p + 4 \<le> pos p'"
        and e: "pos p' \<le> buffer_len p" and a: "argc c' \<le> RESPB_MAX_ARGS"
        and o: "opcode c' = op" and x: "mux_id c' = mux" and rp: "raw_payload c' = pos p + 4"
        by (auto simp: follows_def wf_state_def)
      have "respb_parse_command p cmd = Inr (0, p', c')"
        using op mux add hdr Some Return s' r by (simp add: respb_parse_command_def Let_def)
      with op mux Some b m e a o x rp show ?thesis by simp
    next
      case (Fault x)
      with g show ?thesis by (simp add: good_def)
    qed
  qed
qed

text \<open>An all-zero command record, as \<^verbatim>\<open>memset\<close> or \<^verbatim>\<open>= {0}\<close> leaves it.\<close>

definition respb_command_zero :: respb_command where
  "respb_command_zero =
     \<lparr> opcode = 0, mux_id = 0, argc = 0, args = (\<lambda>i. \<lparr>data = 0, len = 0\<rparr>),
       raw_payload = 0, raw_payload_len = 0, module_subcommand = 0, module_id = 0,
       command_id = 0, resp_length = 0, resp_data = 0 \<rparr>"

lemmas respb_eval =
  respb_parse_command_def respb_parser_init_def respb_command_zero_def size_add_def size_sub_def
  read_u16_be_def read_u32_be_def byte_at_def respb_switch_def READ_STRING_2B_def
  READ_STRING_4B_def for_loop_def if_then_def respb_parse_module_def
  respb_parse_resp_passthrough_def Let_def

subsection \<open>Incomplete frames and the cursor\<close>

text \<open>
  Claim C1, as stated, fails. \<^verbatim>\<open>GET\<close> with a key length of 5 and one key byte in the
  buffer: the call returns 0 with the cursor at 6, past the header and the length field,
  where it began at 0. No statement of the function restores the cursor.
\<close>

theorem respb_incomplete_moves_cursor:
  "respb_parse_command (respb_parser_init [0x00, 0x00, 0x00, 0x00, 0x00, 0x05, 0x6D]) respb_command_zero =
     Inr (0, \<lparr>buffer = [0x00, 0x00, 0x00, 0x00, 0x00, 0x05, 0x6D], pos = 6\<rparr>,
          respb_command_zero\<lparr>raw_payload := 4\<rparr>)"
  by (simp add: respb_eval)

text \<open>
  Claim C1, amended. When the call returns 0 with fewer than four bytes left at the
  cursor, the cursor, the parser and the command record are unchanged. When it returns 0
  with the header in the buffer, the header has been consumed: the cursor is at least
  four bytes further on, still within the buffer, and it is not moved back.
\<close>

theorem respb_incomplete_cursor:
  assumes "pos p \<le> buffer_len p" and "buffer_len p < 2 ^ 63"
      and "respb_parse_command p cmd = Inr (0, p', c')"
  shows "if buffer_len p < pos p + 4 then p' = p \<and> c' = cmd
         else pos p + 4 \<le> pos p' \<and> pos p' \<le> buffer_len p \<and> buffer p' = buffer p"
proof (cases "buffer_len p < pos p + 4")
  case True
  have "pos p < 2 ^ 63" using assms(1,2) by simp
  from respb_parse_command_short [OF this True] assms(3) True show ?thesis by simp
next
  case False
  then have "pos p + 4 \<le> buffer_len p" by simp
  from respb_parse_command_long [OF assms(2) this, of cmd] assms(3) False
  show ?thesis by auto
qed

theorem respb_incomplete_cursor_witness:
  "pos (respb_parser_init [0x00, 0x00, 0x00, 0x00, 0x00, 0x05, 0x6D]) \<le>
     buffer_len (respb_parser_init [0x00, 0x00, 0x00, 0x00, 0x00, 0x05, 0x6D]) \<and>
   4 \<le> pos \<lparr>buffer = [0x00, 0x00, 0x00, 0x00, 0x00, 0x05, 0x6D], pos = 6\<rparr> \<and>
   pos \<lparr>buffer = [0x00, 0x00, 0x00, 0x00, 0x00, 0x05, 0x6D], pos = 6\<rparr> \<le> 7"
  using respb_incomplete_cursor [of "respb_parser_init [0x00, 0x00, 0x00, 0x00, 0x00, 0x05, 0x6D]"
          respb_command_zero
          "\<lparr>buffer = [0x00, 0x00, 0x00, 0x00, 0x00, 0x05, 0x6D], pos = 6\<rparr>"
          "respb_command_zero\<lparr>raw_payload := 4\<rparr>"]
  by (simp add: respb_eval)

subsection \<open>Bounds safety\<close>

text \<open>
  Claim C4. For every byte slice and every cursor (sizes and offsets of C objects lie
  below \<open>2 ^ 63\<close>), inside the slice or beyond its end, the call returns 1, 0 or -1. It
  never ends in a fault: no read of the model is at an index at or past the length of
  the slice, since every such read is \<open>byte_at\<close> giving \<open>None\<close>, which the model turns
  into \<open>ReadPastBuffer\<close>; and no store goes outside \<^verbatim>\<open>args\<close>.
\<close>

theorem respb_parse_command_in_bounds:
  assumes "buffer_len p < 2 ^ 63" and "pos p < 2 ^ 63"
  shows "\<exists>r p' c'. respb_parse_command p cmd = Inr (r, p', c') \<and> (r = 1 \<or> r = 0 \<or> r = - 1)"
proof (cases "buffer_len p < pos p + 4")
  case True
  from respb_parse_command_short [OF assms(2) True] show ?thesis by simp
next
  case False
  then have "pos p + 4 \<le> buffer_len p" by simp
  from respb_parse_command_long [OF assms(1) this, of cmd] show ?thesis by blast
qed

theorem respb_parse_command_in_bounds_witness:
  "buffer_len (respb_parser_init [0x00, 0x00, 0x00, 0x00, 0x00, 0x05, 0x6D]) < 2 ^ 63 \<and>
   pos (respb_parser_init [0x00, 0x00, 0x00, 0x00, 0x00, 0x05, 0x6D]) < 2 ^ 63 \<and>
   (\<exists>r p' c'. respb_parse_command (respb_parser_init [0x00, 0x00, 0x00, 0x00, 0x00, 0x05, 0x6D])
                 respb_command_zero = Inr (r, p', c') \<and> (r = 1 \<or> r = 0 \<or> r = - 1))"
proof -
  have a: "buffer_len (respb_parser_init [0x00, 0x00, 0x00, 0x00, 0x00, 0x05, 0x6D]) < 2 ^ 63"
    by (simp add: respb_parser_init_def)
  have b: "pos (respb_parser_init [0x00, 0x00, 0x00, 0x00, 0x00, 0x05, 0x6D]) < 2 ^ 63"
    by (simp add: respb_parser_init_def)
  from a b respb_parse_command_in_bounds [OF a b, of respb_command_zero] show ?thesis by blast
qed

subsection \<open>Cursor advance and the raw payload\<close>

text \<open>
  Claim C6, as stated, fails for the two extended headers. A passthrough frame with a
  \<^verbatim>\<open>resp_length\<close> of 0 is eight bytes; the call succeeds with the cursor at 8 and
  \<^verbatim>\<open>raw_payload_len = 4\<close>: the advance is \<^verbatim>\<open>raw_payload_len + 4\<close>, not \<open>+ 8\<close>.
  \<^verbatim>\<open>raw_payload\<close> and \<^verbatim>\<open>payload_start\<close> are taken right after the four-byte header,
  before the switch, for every opcode.
\<close>

theorem respb_passthrough_payload_from_basic_header:
  "respb_parse_command
     (respb_parser_init [0xFF, 0xFF, 0x00, 0x00, 0x00, 0x00, 0x00, 0x00]) respb_command_zero =
   Inr (1, \<lparr>buffer = [0xFF, 0xFF, 0x00, 0x00, 0x00, 0x00, 0x00, 0x00], pos = 8\<rparr>,
        respb_command_zero\<lparr>opcode := RESPB_OP_RESP_PASSTHROUGH, raw_payload := 4,
                            raw_payload_len := 4, resp_data := 8\<rparr>)"
  by (simp add: respb_eval)

text \<open>
  Claim C6, amended. On every successful call the cursor strictly advances, and the
  advance is \<^verbatim>\<open>raw_payload_len + 4\<close> for every opcode, module and passthrough frames
  included: \<^verbatim>\<open>raw_payload\<close> starts right after the four-byte basic header, so for those
  two it contains the four bytes of the sub-command or of the length.
\<close>

theorem respb_success_advance:
  assumes "pos p \<le> buffer_len p" and "buffer_len p < 2 ^ 63"
      and "respb_parse_command p cmd = Inr (1, p', c')"
  shows "pos p < pos p' \<and> pos p' - pos p = raw_payload_len c' + 4 \<and>
         raw_payload c' = pos p + 4"
proof (cases "buffer_len p < pos p + 4")
  case True
  have "pos p < 2 ^ 63" using assms(1,2) by simp
  from respb_parse_command_short [OF this True] assms(3) show ?thesis by simp
next
  case False
  then have "pos p + 4 \<le> buffer_len p" by simp
  from respb_parse_command_long [OF assms(2) this, of cmd] assms(3)
  show ?thesis by auto
qed

theorem respb_success_advance_witness:
  "pos (respb_parser_init [0xFF, 0xFF, 0x00, 0x00, 0x00, 0x00, 0x00, 0x00]) < (8::nat) \<and>
   (8::nat) - pos (respb_parser_init [0xFF, 0xFF, 0x00, 0x00, 0x00, 0x00, 0x00, 0x00]) = 4 + 4"
  using respb_success_advance [of "respb_parser_init [0xFF, 0xFF, 0x00, 0x00, 0x00, 0x00, 0x00, 0x00]"
          respb_command_zero
          "\<lparr>buffer = [0xFF, 0xFF, 0x00, 0x00, 0x00, 0x00, 0x00, 0x00], pos = 8\<rparr>"
          "respb_command_zero\<lparr>opcode := RESPB_OP_RESP_PASSTHROUGH, raw_payload := 4,
                            raw_payload_len := 4, resp_data := 8\<rparr>"]
  by (simp add: respb_eval)

subsection \<open>Unknown opcodes\<close>

text \<open>
  Claim C9. When the call returns -1, the opcode read from the header is one that no
  \<^verbatim>\<open>case\<close> label lists, and the cursor is exactly four bytes past where the call began:
  the header has been consumed and the \<^verbatim>\<open>default\<close> branch returns without moving the
  cursor back.
\<close>

theorem respb_unknown_opcode_cursor:
  assumes "pos p \<le> buffer_len p" and "buffer_len p < 2 ^ 63"
      and "respb_parse_command p cmd = Inr (- 1, p', c')"
  shows "pos p' = pos p + 4 \<and> read_u16_be (buffer p) (pos p) = Some (opcode c') \<and>
         switch_lookup (opcode c') respb_switch = None"
proof (cases "buffer_len p < pos p + 4")
  case True
  have "pos p < 2 ^ 63" using assms(1,2) by simp
  from respb_parse_command_short [OF this True] assms(3) show ?thesis by simp
next
  case False
  then have "pos p + 4 \<le> buffer_len p" by simp
  from respb_parse_command_long [OF assms(2) this, of cmd] assms(3)
  show ?thesis by auto
qed

theorem respb_unknown_opcode_cursor_witness:
  "respb_parse_command (respb_parser_init [0xBE, 0xEF, 0x00, 0x00]) respb_command_zero =
     Inr (- 1, \<lparr>buffer = [0xBE, 0xEF, 0x00, 0x00], pos = 4\<rparr>,
          respb_command_zero\<lparr>opcode := 0xBEEF, raw_payload := 4\<rparr>) \<and>
   pos \<lparr>buffer = [0xBE, 0xEF, 0x00, 0x00 :: byte], pos = 4\<rparr> =
     pos (respb_parser_init [0xBE, 0xEF, 0x00, 0x00]) + 4"
proof -
  have e: "respb_parse_command (respb_parser_init [0xBE, 0xEF, 0x00, 0x00]) respb_command_zero =
     Inr (- 1, \<lparr>buffer = [0xBE, 0xEF, 0x00, 0x00], pos = 4\<rparr>,
          respb_command_zero\<lparr>opcode := 0xBEEF, raw_payload := 4\<rparr>)"
    by (simp add: respb_eval)
  have a: "pos (respb_parser_init [0xBE, 0xEF, 0x00, 0x00]) \<le>
             buffer_len (respb_parser_init [0xBE, 0xEF, 0x00, 0x00])"
    by (simp add: respb_parser_init_def)
  have b: "buffer_len (respb_parser_init [0xBE, 0xEF, 0x00, 0x00]) < 2 ^ 63"
    by (simp add: respb_parser_init_def)
  from respb_unknown_opcode_cursor [OF a b e] e show ?thesis by simp
qed

subsection \<open>Repeated groups and the argument cap\<close>

text \<open>
  The case groups of the switch whose body loops over a declared count, in the order of
  the source. Each has the index of the argument that the last round of the loop stores
  when the guard of the loop, not the count, stops it, and the numbers of bytes that the
  body may still consume after that argument (a fixed trailing field; for the script
  commands the two bytes of \<^verbatim>\<open>numargs\<close>, or nothing after the first script argument).
  \<^verbatim>\<open>RESPB_OP_MODULE\<close> is listed for \<^verbatim>\<open>JSON.GET\<close>, the one module command with a loop.
\<close>

definition repeated_groups :: "(16 word list \<times> nat \<times> nat list) list" where
  "repeated_groups = [
   ([RESPB_OP_MSETNX], 63, [0]),
   ([RESPB_OP_MGET, RESPB_OP_DEL, RESPB_OP_EXISTS, RESPB_OP_UNLINK], 63, [0]),
   ([RESPB_OP_MSET], 63, [0]),
   ([RESPB_OP_LPUSH, RESPB_OP_RPUSH], 63, [0]),
   ([RESPB_OP_LPUSHX, RESPB_OP_RPUSHX], 63, [0]),
   ([RESPB_OP_BLMPOP], 63, [1]),
   ([RESPB_OP_LMPOP], 63, [1]),
   ([RESPB_OP_BLPOP, RESPB_OP_BRPOP], 63, [8]),
   ([RESPB_OP_SADD], 63, [0]),
   ([RESPB_OP_SREM], 63, [0]),
   ([RESPB_OP_SINTER, RESPB_OP_SUNION, RESPB_OP_SDIFF, RESPB_OP_SINTERCARD], 63, [0]),
   ([RESPB_OP_SINTERSTORE, RESPB_OP_SUNIONSTORE, RESPB_OP_SDIFFSTORE], 63, [0]),
   ([RESPB_OP_SMISMEMBER], 63, [0]),
   ([RESPB_OP_HSET], 62, [0]),
   ([RESPB_OP_HMSET], 62, [0]),
   ([RESPB_OP_HMGET], 63, [0]),
   ([RESPB_OP_HDEL], 63, [0]),
   ([RESPB_OP_ZREM], 63, [0]),
   ([RESPB_OP_BZPOPMIN, RESPB_OP_BZPOPMAX], 63, [8]),
   ([RESPB_OP_ZDIFF], 63, [1]),
   ([RESPB_OP_ZDIFFSTORE], 63, [0]),
   ([RESPB_OP_ZINTER, RESPB_OP_ZUNION], 63, [1]),
   ([RESPB_OP_ZINTERSTORE, RESPB_OP_ZUNIONSTORE], 63, [1]),
   ([RESPB_OP_ZMPOP], 63, [1]),
   ([RESPB_OP_BZMPOP], 63, [1]),
   ([RESPB_OP_ZINTERCARD], 63, [0]),
   ([RESPB_OP_ZMSCORE], 63, [0]),
   ([RESPB_OP_WATCH], 63, [0]),
   ([RESPB_OP_EVAL], 63, [2, 0]),
   ([RESPB_OP_EVALSHA], 63, [2, 0]),
   ([RESPB_OP_EVAL_RO], 63, [2, 0]),
   ([RESPB_OP_EVALSHA_RO], 63, [2, 0]),
   ([RESPB_OP_FCALL], 63, [2, 0]),
   ([RESPB_OP_FCALL_RO], 63, [2, 0]),
   ([RESPB_OP_TOUCH], 63, [0]),
   ([RESPB_OP_BITOP], 63, [0]),
   ([RESPB_OP_PFADD], 63, [0]),
   ([RESPB_OP_PFCOUNT], 63, [0]),
   ([RESPB_OP_PFMERGE], 63, [0]),
   ([RESPB_OP_GEOHASH, RESPB_OP_GEOPOS], 63, [0]),
   ([RESPB_OP_XREAD], 63, [0]),
   ([RESPB_OP_XREADGROUP], 63, [0]),
   ([RESPB_OP_SUBSCRIBE, RESPB_OP_UNSUBSCRIBE, RESPB_OP_SSUBSCRIBE, RESPB_OP_SUNSUBSCRIBE], 63, [0]),
   ([RESPB_OP_PSUBSCRIBE, RESPB_OP_PUNSUBSCRIBE], 63, [0]),
   ([RESPB_OP_MODULE], 63, [0])
  ]"

fun group_lookup :: "16 word \<Rightarrow> (16 word list \<times> nat \<times> nat list) list \<Rightarrow> (nat \<times> nat list) option" where
  "group_lookup op [] = None"
| "group_lookup op ((labels, g) # rest) =
     (if op \<in> set labels then Some g else group_lookup op rest)"

text \<open>The cursor stands \<open>t\<close> bytes after the end of argument \<open>k\<close>.\<close>

definition cursor_after :: "nat \<Rightarrow> nat \<Rightarrow> respb_parser \<Rightarrow> respb_command \<Rightarrow> bool" where
  "cursor_after k t p c \<longleftrightarrow> pos p = data (args c k) + len (args c k) + t"

text \<open>
  \<open>ends_at k c\<close>: when the statement \<open>c\<close> falls through, the cursor is at the end of
  argument \<open>k\<close>. \<open>capped k ts c\<close>: when \<open>c\<close> falls through with \<^verbatim>\<open>argc\<close> at
  \<^verbatim>\<open>RESPB_MAX_ARGS\<close>, the cursor is one of the distances \<open>ts\<close> after the end of
  argument \<open>k\<close>.
\<close>

definition ends_at :: "nat \<Rightarrow> stmt \<Rightarrow> bool" where
  "ends_at k c \<longleftrightarrow> (\<forall>s s'. wf_state s \<and> c s = Cont s' \<longrightarrow> cursor_after k 0 (fst s') (snd s'))"

definition capped :: "nat \<Rightarrow> nat list \<Rightarrow> stmt \<Rightarrow> bool" where
  "capped k ts c \<longleftrightarrow>
     (\<forall>s s'. wf_state s \<and> c s = Cont s' \<and> argc (snd s') = RESPB_MAX_ARGS \<longrightarrow>
        (\<exists>t \<in> set ts. cursor_after k t (fst s') (snd s')))"

lemma ends_atI:
  "(\<And>s s'. wf_state s \<Longrightarrow> c s = Cont s' \<Longrightarrow> cursor_after k 0 (fst s') (snd s')) \<Longrightarrow> ends_at k c"
  unfolding ends_at_def by blast

lemma ends_atD:
  "ends_at k c \<Longrightarrow> wf_state s \<Longrightarrow> c s = Cont s' \<Longrightarrow> cursor_after k 0 (fst s') (snd s')"
  unfolding ends_at_def by blast

lemma cappedI:
  "(\<And>s s'. wf_state s \<Longrightarrow> c s = Cont s' \<Longrightarrow> argc (snd s') = RESPB_MAX_ARGS \<Longrightarrow>
      \<exists>t \<in> set ts. cursor_after k t (fst s') (snd s')) \<Longrightarrow> capped k ts c"
  unfolding capped_def by blast

lemma cappedD:
  "capped k ts c \<Longrightarrow> wf_state s \<Longrightarrow> c s = Cont s' \<Longrightarrow> argc (snd s') = RESPB_MAX_ARGS \<Longrightarrow>
     \<exists>t \<in> set ts. cursor_after k t (fst s') (snd s')"
  unfolding capped_def by blast

lemma block_Cons_Cont:
  "block (c # cs) s = Cont s' \<longleftrightarrow> (\<exists>s1. c s = Cont s1 \<and> block cs s1 = Cont s')"
  by (cases "c s") simp_all

lemma block_single_Cont: "block [c] s = Cont s' \<longleftrightarrow> c s = Cont s'"
  by (cases "c s") simp_all

lemma ok_Cont_wf:
  assumes "ok_with 0 c" and "wf_state s" and "c s = Cont s'"
  shows "wf_state s'"
proof -
  from assms(2) have "pos (fst s) + 0 \<le> buffer_len (fst s)" by (simp add: wf_state_def)
  from ok_withD [OF assms(1,2) this] have "good s (c s)" .
  with assms(3) show ?thesis by (simp add: good_def follows_def)
qed

lemma ok_for_loop_single:
  assumes "\<And>i. guard i \<Longrightarrow> ok_with 0 (body i)"
  shows "ok_with 0 (for_loop n guard body)"
  unfolding ok_with_def for_loop_def
  using good_for_loop_from [of guard body] assms by blast

text \<open>What \<^verbatim>\<open>READ_STRING_2B\<close> and \<^verbatim>\<open>READ_STRING_4B\<close> leave when they fall through.\<close>

lemma READ_STRING_2B_Cont:
  assumes w: "wf_state (p, c)" and r: "READ_STRING_2B i (p, c) = Cont s'"
  shows "\<exists>l. s' = (p\<lparr>pos := pos p + 2 + l\<rparr>,
                    c\<lparr>args := (args c)(i := \<lparr>data = pos p + 2, len = l\<rparr>)\<rparr>)"
proof -
  from w have b: "pos p \<le> buffer_len p" "buffer_len p < 2 ^ 63" by (simp_all add: wf_state_def)
  then have "pos p + 2 < 2 ^ 64" by simp
  then have a2: "size_add (pos p) 2 = pos p + 2" by (rule size_add_small)
  from r a2 obtain v where
    rest: "block [advance 2, CHECK_AVAIL (unat v), store_arg i (unat v), advance (unat v)] (p, c) = Cont s'"
    and av: "pos p + 2 \<le> buffer_len p" and v: "read_u16_be (buffer p) (pos p) = Some (v :: 16 word)"
    unfolding READ_STRING_2B_def by (auto split: if_splits option.splits flow.splits)
  have "unat v < 2 ^ 16" using unsigned_less [of v, where ?'a = nat] by simp
  with av b have "pos p + 2 + unat v < 2 ^ 64" by simp
  then have al: "size_add (pos p + 2) (unat v) = pos p + 2 + unat v" by (rule size_add_small)
  from rest a2 al show ?thesis by (auto split: if_splits)
qed

lemma READ_STRING_4B_Cont:
  assumes w: "wf_state (p, c)" and r: "READ_STRING_4B i (p, c) = Cont s'"
  shows "\<exists>l. s' = (p\<lparr>pos := pos p + 4 + l\<rparr>,
                    c\<lparr>args := (args c)(i := \<lparr>data = pos p + 4, len = l\<rparr>)\<rparr>)"
proof -
  from w have b: "pos p \<le> buffer_len p" "buffer_len p < 2 ^ 63" by (simp_all add: wf_state_def)
  then have "pos p + 4 < 2 ^ 64" by simp
  then have a4: "size_add (pos p) 4 = pos p + 4" by (rule size_add_small)
  from r a4 obtain v where
    rest: "block [advance 4, CHECK_AVAIL (unat v), store_arg i (unat v), advance (unat v)] (p, c) = Cont s'"
    and av: "pos p + 4 \<le> buffer_len p" and v: "read_u32_be (buffer p) (pos p) = Some (v :: 32 word)"
    unfolding READ_STRING_4B_def by (auto split: if_splits option.splits flow.splits)
  have "unat v < 2 ^ 63" by (rule unat32_small)
  with av b have "pos p + 4 + unat v < 2 ^ 64" by simp
  then have al: "size_add (pos p + 4) (unat v) = pos p + 4 + unat v" by (rule size_add_small)
  from rest a4 al show ?thesis by (auto split: if_splits)
qed

lemma ends_READ_STRING_2B: "ends_at i (block [READ_STRING_2B i])"
proof (rule ends_atI)
  fix s s' :: pstate assume w: "wf_state s" and r: "block [READ_STRING_2B i] s = Cont s'"
  obtain p c where s: "s = (p, c)" by (cases s)
  from r s have "READ_STRING_2B i (p, c) = Cont s'" unfolding block_single_Cont by simp
  from READ_STRING_2B_Cont [OF w [unfolded s] this]
  show "cursor_after i 0 (fst s') (snd s')" by (auto simp: cursor_after_def)
qed

lemma ends_READ_STRING_4B: "ends_at i (block [READ_STRING_4B i])"
proof (rule ends_atI)
  fix s s' :: pstate assume w: "wf_state s" and r: "block [READ_STRING_4B i] s = Cont s'"
  obtain p c where s: "s = (p, c)" by (cases s)
  from r s have "READ_STRING_4B i (p, c) = Cont s'" unfolding block_single_Cont by simp
  from READ_STRING_4B_Cont [OF w [unfolded s] this]
  show "cursor_after i 0 (fst s') (snd s')" by (auto simp: cursor_after_def)
qed

lemma ends_sub:
  assumes "ok_with 0 c" and "ends_at k (block (x # xs))"
  shows "ends_at k (block (c # x # xs))"
proof (rule ends_atI)
  fix s s' :: pstate assume w: "wf_state s" and r: "block (c # x # xs) s = Cont s'"
  from r obtain s1 where c: "c s = Cont s1" and b: "block (x # xs) s1 = Cont s'"
    unfolding block_Cons_Cont [of c] by blast
  from ok_Cont_wf [OF assms(1) w c] have "wf_state s1" .
  from ends_atD [OF assms(2) this b] show "cursor_after k 0 (fst s') (snd s')" .
qed

lemma ends_READ_STRING_2B_then:
  "i < RESPB_MAX_ARGS \<Longrightarrow> ends_at k (block (x # xs)) \<Longrightarrow> ends_at k (block (READ_STRING_2B i # x # xs))"
  by (rule ends_sub [OF ok_READ_STRING_2B_single])

text \<open>
  A loop that its guard stops: with at least \<open>cap\<close> elements declared and a guard that
  holds below \<open>cap\<close> only, the last round is round \<open>cap - 1\<close>, and no element after it
  is read.
\<close>

lemma for_loop_from_ends:
  assumes cap: "cap \<le> n" and g: "\<And>i. guard i \<longleftrightarrow> i < cap"
      and okb: "\<And>i. i < cap \<Longrightarrow> ok_with 0 (body i)" and e: "ends_at k (body (cap - 1))"
  shows "i < cap \<Longrightarrow> wf_state s \<Longrightarrow> for_loop_from i n guard body s = Cont s' \<Longrightarrow>
         cursor_after k 0 (fst s') (snd s')"
proof (induction "cap - i" arbitrary: i s)
  case 0
  then show ?case by simp
next
  case (Suc d)
  from Suc.prems(1) cap g have t: "i < n \<and> guard i" by simp
  have "for_loop_from i n guard body s =
          (case body i s of Cont s' \<Rightarrow> for_loop_from (i + 1) n guard body s'
           | Return r s' \<Rightarrow> Return r s' | Fault f \<Rightarrow> Fault f)"
    using t by (subst for_loop_from.simps) simp
  with Suc.prems(3) obtain s1 where b: "body i s = Cont s1"
      and l: "for_loop_from (i + 1) n guard body s1 = Cont s'"
    by (cases "body i s") simp_all
  from ok_Cont_wf [OF okb [OF Suc.prems(1)] Suc.prems(2) b] have w1: "wf_state s1" .
  show ?case
  proof (cases "i + 1 < cap")
    case True
    from Suc.hyps(2) have "d = cap - (i + 1)" by simp
    from Suc.hyps(1) [OF this True w1 l] show ?thesis .
  next
    case False
    with Suc.prems(1) have i: "i = cap - 1" by simp
    from False g have "\<not> (i + 1 < n \<and> guard (i + 1))" by simp
    then have "for_loop_from (i + 1) n guard body s1 = Cont s1"
      by (subst for_loop_from.simps) auto
    with l have "s' = s1" by simp
    with ends_atD [OF e Suc.prems(2)] b i show ?thesis by simp
  qed
qed

lemma for_loop_ends:
  assumes "0 < cap" and "cap \<le> n" and "\<And>i. guard i \<longleftrightarrow> i < cap"
      and "\<And>i. i < cap \<Longrightarrow> ok_with 0 (body i)" and "ends_at k (body (cap - 1))"
  shows "ends_at k (for_loop n guard body)"
  unfolding for_loop_def
  by (rule ends_atI)
     (rule for_loop_from_ends [of cap n guard body k 0, OF assms(2) assms(3) assms(4) assms(5) assms(1)])

text \<open>The four guards of the source and the number of rounds each allows.\<close>

lemma ends_for_loop_64:
  assumes "64 \<le> n" and "\<And>i. i < 64 \<Longrightarrow> ok_with 0 (body i)" and "ends_at k (body 63)"
  shows "ends_at k (for_loop n (\<lambda>i. i < RESPB_MAX_ARGS) body)"
  by (rule for_loop_ends [where cap = 64]) (use assms in simp_all)

lemma ends_for_loop_63:
  assumes "63 \<le> n" and "\<And>i. i < 63 \<Longrightarrow> ok_with 0 (body i)" and "ends_at k (body 62)"
  shows "ends_at k (for_loop n (\<lambda>i. i + 1 < RESPB_MAX_ARGS) body)"
  by (rule for_loop_ends [where cap = 63]) (use assms in auto)

lemma ends_for_loop_32:
  assumes "32 \<le> n" and "\<And>i. i < 32 \<Longrightarrow> ok_with 0 (body i)" and "ends_at k (body 31)"
  shows "ends_at k (for_loop n (\<lambda>i. i * 2 + 1 < RESPB_MAX_ARGS) body)"
  by (rule for_loop_ends [where cap = 32]) (use assms in auto)

lemma ends_for_loop_31:
  assumes "31 \<le> n" and "\<And>i. i < 31 \<Longrightarrow> ok_with 0 (body i)" and "ends_at k (body 30)"
  shows "ends_at k (for_loop n (\<lambda>i. i * 2 + 2 < RESPB_MAX_ARGS) body)"
  by (rule for_loop_ends [where cap = 31]) (use assms in auto)

text \<open>The statements before the loop, and the statements after it.\<close>

lemma capped_sub:
  assumes "ok_with 0 c" and "capped k ts (block rest)"
  shows "capped k ts (block (c # rest))"
proof (rule cappedI)
  fix s s' :: pstate
  assume w: "wf_state s" and r: "block (c # rest) s = Cont s'"
     and a: "argc (snd s') = RESPB_MAX_ARGS"
  from r obtain s1 where c: "c s = Cont s1" and b: "block rest s1 = Cont s'"
    unfolding block_Cons_Cont [of c] by blast
  from ok_Cont_wf [OF assms(1) w c] have "wf_state s1" .
  from cappedD [OF assms(2) this b a] show "\<exists>t \<in> set ts. cursor_after k t (fst s') (snd s')" .
qed

lemma capped_READ_STRING_2B:
  "i < RESPB_MAX_ARGS \<Longrightarrow> capped k ts (block rest) \<Longrightarrow> capped k ts (block (READ_STRING_2B i # rest))"
  by (rule capped_sub [OF ok_READ_STRING_2B_single])

lemma capped_READ_STRING_4B:
  "i < RESPB_MAX_ARGS \<Longrightarrow> capped k ts (block rest) \<Longrightarrow> capped k ts (block (READ_STRING_4B i # rest))"
  by (rule capped_sub [OF ok_READ_STRING_4B_single])

lemma skip_Cont:
  assumes w: "wf_state s" and n: "n < 2 ^ 63" and r: "block (CHECK_AVAIL n # advance n # rest) s = Cont s'"
  shows "\<exists>s1. wf_state s1 \<and> pos (fst s1) = pos (fst s) + n \<and> snd s1 = snd s \<and>
              block rest s1 = Cont s'"
proof -
  obtain p c where s: "s = (p, c)" by (cases s)
  from w s have b: "pos p \<le> buffer_len p" "buffer_len p < 2 ^ 63" "argc c \<le> RESPB_MAX_ARGS"
    by (simp_all add: wf_state_def)
  with n have "pos p + n < 2 ^ 64" by simp
  then have add: "size_add (pos p) n = pos p + n" by (rule size_add_small)
  from r s add have av: "pos p + n \<le> buffer_len p" by (simp split: if_splits)
  with r s add have "block rest (p\<lparr>pos := pos p + n\<rparr>, c) = Cont s'" by simp
  moreover from b av have "wf_state (p\<lparr>pos := pos p + n\<rparr>, c)" by (simp add: wf_state_def)
  ultimately show ?thesis using s by auto
qed

lemma capped_skip:
  assumes "n < 2 ^ 63" and "capped k ts (block rest)"
  shows "capped k ts (block (CHECK_AVAIL n # advance n # rest))"
proof (rule cappedI)
  fix s s' :: pstate
  assume w: "wf_state s" and r: "block (CHECK_AVAIL n # advance n # rest) s = Cont s'"
     and a: "argc (snd s') = RESPB_MAX_ARGS"
  from skip_Cont [OF w assms(1) r] obtain s1 where "wf_state s1" "block rest s1 = Cont s'" by blast
  from cappedD [OF assms(2) this a] show "\<exists>t \<in> set ts. cursor_after k t (fst s') (snd s')" .
qed

lemma count_Cont:
  assumes w: "wf_state s"
      and r: "block [CHECK_AVAIL 2, read_u16 (\<lambda>v. block (advance 2 # rest v))] s = Cont s'"
  shows "\<exists>v s1. wf_state s1 \<and> pos (fst s1) = pos (fst s) + 2 \<and> snd s1 = snd s \<and>
                block (rest v) s1 = Cont s'"
proof -
  obtain p c where s: "s = (p, c)" by (cases s)
  from w s have b: "pos p \<le> buffer_len p" "buffer_len p < 2 ^ 63" "argc c \<le> RESPB_MAX_ARGS"
    by (simp_all add: wf_state_def)
  then have "pos p + 2 < 2 ^ 64" by simp
  then have add: "size_add (pos p) 2 = pos p + 2" by (rule size_add_small)
  from r s add have av: "pos p + 2 \<le> buffer_len p" by (simp split: if_splits)
  with r s add obtain v where bv: "block (rest v) (p\<lparr>pos := pos p + 2\<rparr>, c) = Cont s'"
    by (auto split: option.splits flow.splits)
  from b av have "wf_state (p\<lparr>pos := pos p + 2\<rparr>, c)" by (simp add: wf_state_def)
  with bv s show ?thesis
    by (intro exI [of _ v] exI [of _ "(p\<lparr>pos := pos p + 2\<rparr>, c)"]) simp
qed

lemma capped_count:
  assumes "\<And>v. capped k ts (block (rest v))"
  shows "capped k ts (block [CHECK_AVAIL 2, read_u16 (\<lambda>v. block (advance 2 # rest v))])"
proof (rule cappedI)
  fix s s' :: pstate
  assume w: "wf_state s"
     and r: "block [CHECK_AVAIL 2, read_u16 (\<lambda>v. block (advance 2 # rest v))] s = Cont s'"
     and a: "argc (snd s') = RESPB_MAX_ARGS"
  from count_Cont [OF w r] obtain v s1 where "wf_state s1" "block (rest v) s1 = Cont s'" by blast
  from cappedD [OF assms this a] show "\<exists>t \<in> set ts. cursor_after k t (fst s') (snd s')" .
qed

lemma capped_small: "a \<noteq> RESPB_MAX_ARGS \<Longrightarrow> capped k ts (block [set_argc a])"
  by (rule cappedI) auto

lemma capped_for_loop:
  assumes "a = RESPB_MAX_ARGS \<Longrightarrow> ends_at k (for_loop n guard body)"
  shows "capped k [0] (block [for_loop n guard body, set_argc a])"
proof (rule cappedI)
  fix s s' :: pstate
  assume w: "wf_state s" and r: "block [for_loop n guard body, set_argc a] s = Cont s'"
     and a: "argc (snd s') = RESPB_MAX_ARGS"
  from r obtain s1 where l: "for_loop n guard body s = Cont s1" and t: "set_argc a s1 = Cont s'"
    unfolding block_Cons_Cont [of "for_loop n guard body"] block_single_Cont by blast
  obtain p1 c1 where s1: "s1 = (p1, c1)" by (cases s1)
  from t s1 have s': "s' = (p1, c1\<lparr>argc := a\<rparr>)" by simp
  with a have "a = RESPB_MAX_ARGS" by simp
  from ends_atD [OF assms [OF this] w l] s1 s'
  show "\<exists>t \<in> set [0]. cursor_after k t (fst s') (snd s')" by (simp add: cursor_after_def)
qed

lemma capped_for_loop_skip:
  assumes e: "a = RESPB_MAX_ARGS \<Longrightarrow> ends_at k (for_loop n guard body)"
      and okb: "\<And>i. guard i \<Longrightarrow> ok_with 0 (body i)" and t: "t < 2 ^ 63"
  shows "capped k [t] (block [for_loop n guard body, CHECK_AVAIL t, advance t, set_argc a])"
proof (rule cappedI)
  fix s s' :: pstate
  assume w: "wf_state s"
     and r: "block [for_loop n guard body, CHECK_AVAIL t, advance t, set_argc a] s = Cont s'"
     and a: "argc (snd s') = RESPB_MAX_ARGS"
  from r obtain s1 where l: "for_loop n guard body s = Cont s1"
      and r1: "block [CHECK_AVAIL t, advance t, set_argc a] s1 = Cont s'"
    unfolding block_Cons_Cont [of "for_loop n guard body"] by blast
  from ok_Cont_wf [OF ok_for_loop_single w l] okb have w1: "wf_state s1" by blast
  from skip_Cont [OF w1 t r1] obtain s2 where
    p2: "pos (fst s2) = pos (fst s1) + t" and c2: "snd s2 = snd s1"
    and r2: "block [set_argc a] s2 = Cont s'" by blast
  obtain p c where s2: "s2 = (p, c)" by (cases s2)
  from r2 s2 have s': "s' = (p, c\<lparr>argc := a\<rparr>)" by simp
  with a have "a = RESPB_MAX_ARGS" by simp
  from ends_atD [OF e [OF this] w l] p2 c2 s2 s'
  show "\<exists>u \<in> set [t]. cursor_after k u (fst s') (snd s')" by (simp add: cursor_after_def)
qed

text \<open>
  The script commands read one more argument after the loop when \<^verbatim>\<open>numargs\<close> is not 0
  and the array has room: the array is full after the loop (63 keys or more), or after
  that argument (62 keys).
\<close>

lemma capped_script:
  "capped 63 [2, 0]
     (block [for_loop numkeys (\<lambda>i. i + 1 < RESPB_MAX_ARGS) (\<lambda>i. block [READ_STRING_2B (i + 1)]),
       CHECK_AVAIL 2, read_u16 (\<lambda>numargs. block [advance 2,
       if_then (numargs > 0 \<and> numkeys + 1 < RESPB_MAX_ARGS) (block [READ_STRING_2B (numkeys + 1)]),
       set_argc (if numkeys + (if numargs > 0 then 1 else 0) + 1 < RESPB_MAX_ARGS then numkeys + (if numargs > 0 then 1 else 0) + 1 else RESPB_MAX_ARGS)])])"
proof (rule cappedI)
  let ?body = "\<lambda>i. block [READ_STRING_2B (i + 1)]"
  let ?loop = "for_loop numkeys (\<lambda>i. i + 1 < RESPB_MAX_ARGS) ?body"
  let ?argc = "\<lambda>numargs. if numkeys + (if numargs > 0 then 1 else 0) + 1 < RESPB_MAX_ARGS
                          then numkeys + (if numargs > 0 then 1 else 0) + 1 else RESPB_MAX_ARGS"
  let ?rest = "\<lambda>numargs :: nat.
                 [if_then (numargs > 0 \<and> numkeys + 1 < RESPB_MAX_ARGS) (block [READ_STRING_2B (numkeys + 1)]),
                  set_argc (?argc numargs)]"
  fix s s' :: pstate
  assume w: "wf_state s"
     and r: "block [?loop, CHECK_AVAIL 2, read_u16 (\<lambda>numargs. block (advance 2 # ?rest numargs))] s = Cont s'"
     and a: "argc (snd s') = RESPB_MAX_ARGS"
  have okb: "\<And>i. i + 1 < RESPB_MAX_ARGS \<Longrightarrow> ok_with 0 (?body i)"
    by (intro ok_rules) simp_all
  from r obtain s1 where l: "?loop s = Cont s1"
      and r1: "block [CHECK_AVAIL 2, read_u16 (\<lambda>numargs. block (advance 2 # ?rest numargs))] s1 = Cont s'"
    unfolding block_Cons_Cont [of ?loop] by blast
  from ok_Cont_wf [OF ok_for_loop_single w l] okb have w1: "wf_state s1" by blast
  from count_Cont [OF w1 r1] obtain numargs s2 where w2: "wf_state s2"
      and p2: "pos (fst s2) = pos (fst s1) + 2" and c2: "snd s2 = snd s1"
      and r2: "block (?rest numargs) s2 = Cont s'" by blast
  let ?cond = "numargs > 0 \<and> numkeys + 1 < RESPB_MAX_ARGS"
  from r2 obtain s3 where i3: "if_then ?cond (block [READ_STRING_2B (numkeys + 1)]) s2 = Cont s3"
      and r3: "set_argc (?argc numargs) s3 = Cont s'"
    unfolding block_Cons_Cont [of "if_then ?cond (block [READ_STRING_2B (numkeys + 1)])"]
              block_single_Cont by blast
  obtain p3 c3 where s3: "s3 = (p3, c3)" by (cases s3)
  from r3 s3 have s': "s' = (p3, c3\<lparr>argc := ?argc numargs\<rparr>)" by simp
  with a have full: "?argc numargs = RESPB_MAX_ARGS" by simp
  show "\<exists>t \<in> set [2, 0]. cursor_after 63 t (fst s') (snd s')"
  proof (cases "63 \<le> numkeys")
    case True
    have "ends_at 63 (block [READ_STRING_2B (62 + 1)])" using ends_READ_STRING_2B [of 63] by simp
    then have "ends_at 63 ?loop"
      by (intro ends_for_loop_63 [OF True] ok_rules) simp_all
    from ends_atD [OF this w l] have e: "cursor_after 63 0 (fst s1) (snd s1)" .
    from True i3 have "s3 = s2" by (simp add: if_then_def)
    with e p2 c2 s3 s' have "cursor_after 63 2 (fst s') (snd s')"
      by (auto simp: cursor_after_def)
    then show ?thesis by simp
  next
    case False
    with full have k: "numkeys = 62" and n: "numargs > 0" by (auto split: if_splits)
    with i3 have "block [READ_STRING_2B 63] s2 = Cont s3" by (simp add: if_then_def)
    from ends_atD [OF ends_READ_STRING_2B w2 this] s3 s'
    have "cursor_after 63 0 (fst s') (snd s')" by (simp add: cursor_after_def)
    then show ?thesis by simp
  qed
qed

lemmas capped_rules =
  capped_READ_STRING_2B capped_READ_STRING_4B capped_skip capped_count capped_for_loop
  capped_for_loop_skip capped_script ends_for_loop_64 ends_for_loop_63 ends_for_loop_32
  ends_for_loop_31 ends_READ_STRING_2B ends_READ_STRING_4B ends_READ_STRING_2B_then

text \<open>\<^verbatim>\<open>JSON.GET\<close> is the one module command that can fill the array.\<close>

lemma capped_respb_module_payload: "capped 63 [0] respb_module_payload"
proof (rule cappedI)
  fix s s' :: pstate
  assume w: "wf_state s" and r: "respb_module_payload s = Cont s'"
     and a: "argc (snd s') = RESPB_MAX_ARGS"
  obtain p c where s: "s = (p, c)" by (cases s)
  let ?set = "block [READ_STRING_2B 0, READ_STRING_2B 1, READ_STRING_4B 2,
                     CHECK_AVAIL 1, advance 1, set_argc 3]"
  let ?get = "block [READ_STRING_2B 0, CHECK_AVAIL 2,
                  read_u16 (\<lambda>numpaths. block [advance 2,
                    for_loop numpaths (\<lambda>i. i + 1 < RESPB_MAX_ARGS) (\<lambda>i. block [READ_STRING_2B (i + 1)]),
                    set_argc (1 + (if numpaths < RESPB_MAX_ARGS - 1 then numpaths else RESPB_MAX_ARGS - 1))])]"
  let ?one = "block [READ_STRING_2B 0, set_argc 1]"
  let ?two = "block [READ_STRING_2B 0, READ_STRING_2B 1, set_argc 2]"
  have c1: "capped 63 [0] ?set" by (intro capped_rules capped_small) simp_all
  have c2: "capped (62 + 1) [0] ?get"
    by (intro capped_rules ok_rules) (auto split: if_splits)
  have c3: "capped 63 [0] ?one" by (intro capped_rules capped_small) simp_all
  have c4: "capped 63 [0] ?two" by (intro capped_rules capped_small) simp_all
  from r s have "?set s = Cont s' \<or> ?get s = Cont s' \<or> ?one s = Cont s' \<or> ?two s = Cont s'"
    by (simp del: block.simps split: if_splits)
  with cappedD [OF c1 w _ a] cappedD [OF c2 w _ a] cappedD [OF c3 w _ a] cappedD [OF c4 w _ a]
  show "\<exists>t \<in> set [0]. cursor_after 63 t (fst s') (snd s')" by auto
qed

lemma capped_respb_parse_module: "capped 63 [0] respb_parse_module"
proof (rule cappedI)
  fix s s' :: pstate
  assume w: "wf_state s" and r: "respb_parse_module s = Cont s'"
     and a: "argc (snd s') = RESPB_MAX_ARGS"
  obtain p c where s: "s = (p, c)" by (cases s)
  from w s have b: "pos p \<le> buffer_len p" "buffer_len p < 2 ^ 63" "argc c \<le> RESPB_MAX_ARGS"
    by (simp_all add: wf_state_def)
  then have "pos p + 4 < 2 ^ 64" by simp
  then have add: "size_add (pos p) 4 = pos p + 4" by (rule size_add_small)
  from r s add have av: "pos p + 4 \<le> buffer_len p"
    unfolding respb_parse_module_def by (simp split: if_splits)
  from r s add av obtain v where
    m: "respb_module_payload
          (p\<lparr>pos := pos p + 4\<rparr>,
           c\<lparr>module_subcommand := v, module_id := ucast (drop_bit 16 v AND 0xFFFF),
              command_id := ucast (v AND 0xFFFF)\<rparr>) = Cont s'"
    unfolding respb_parse_module_def
    by (auto simp del: respb_module_payload.simps split: option.splits flow.splits)
  from b av have "wf_state (p\<lparr>pos := pos p + 4\<rparr>,
                            c\<lparr>module_subcommand := v, module_id := ucast (drop_bit 16 v AND 0xFFFF),
                               command_id := ucast (v AND 0xFFFF)\<rparr>)"
    by (simp add: wf_state_def)
  from cappedD [OF capped_respb_module_payload this m a]
  show "\<exists>t \<in> set [0]. cursor_after 63 t (fst s') (snd s')" .
qed

text \<open>Every case group of the switch that is listed as a repeated group is capped as listed.\<close>

definition entry_capped :: "16 word list \<Rightarrow> stmt \<Rightarrow> bool" where
  "entry_capped labels body \<longleftrightarrow>
     (\<forall>op \<in> set labels. \<forall>k ts. group_lookup op repeated_groups = Some (k, ts) \<longrightarrow>
        capped k ts body)"

text \<open>The opcodes of the repeated groups as numbers, to tell the other case groups apart.\<close>

definition group_opcodes :: "nat list" where
  "group_opcodes = concat (map (map unat \<circ> fst) repeated_groups)"

lemmas group_opcodes_eval = group_opcodes_def [unfolded repeated_groups_def, simplified]

lemma group_lookup_None:
  "unat op \<notin> set (concat (map (map unat \<circ> fst) tbl)) \<Longrightarrow> group_lookup op tbl = None"
  by (induction tbl) auto

lemma entry_capped_none:
  assumes "\<forall>op \<in> set labels. unat op \<notin> set group_opcodes"
  shows "entry_capped labels body"
proof -
  have "group_lookup op repeated_groups = None" if "op \<in> set labels" for op
    using that assms unfolding group_opcodes_def by (intro group_lookup_None) blast
  then show ?thesis by (simp add: entry_capped_def)
qed

lemma entry_capped_some:
  "capped k ts body \<Longrightarrow> \<forall>op \<in> set labels. group_lookup op repeated_groups = Some (k, ts) \<Longrightarrow>
   entry_capped labels body"
  by (simp add: entry_capped_def)

lemma respb_switch_capped: "list_all (\<lambda>(labels, body). entry_capped labels body) respb_switch"
  unfolding respb_switch_def list.pred_inject case_prod_conv
  by (intro conjI;
      ((rule entry_capped_none, (simp add: group_opcodes_eval; fail)) |
       (rule entry_capped_some,
        (rule capped_rules capped_respb_parse_module ok_rules |
         (simp add: repeated_groups_def split: if_splits; fail))+) |
       (simp; fail)))

lemma switch_lookup_capped:
  assumes "switch_lookup op respb_switch = Some body"
      and "group_lookup op repeated_groups = Some (k, ts)"
  shows "capped k ts body"
proof -
  from switch_lookup_Some [OF assms(1)] obtain labels where
    "(labels, body) \<in> set respb_switch" "op \<in> set labels" by blast
  with respb_switch_capped have "entry_capped labels body"
    by (auto simp: list_all_iff)
  with \<open>op \<in> set labels\<close> assms(2) show ?thesis by (simp add: entry_capped_def)
qed

text \<open>A successful call is a switch body that falls through from the state after the header.\<close>

lemma respb_parse_command_success:
  assumes pos: "pos p \<le> buffer_len p" and len: "buffer_len p < 2 ^ 63"
      and r: "respb_parse_command p cmd = Inr (1, p', c')"
  shows "\<exists>body s c0. switch_lookup (opcode c') respb_switch = Some body \<and> wf_state s \<and>
           body s = Cont (p', c0) \<and> c' = c0\<lparr>raw_payload_len := raw_payload_len c'\<rparr>"
proof -
  have hdr: "pos p + 4 \<le> buffer_len p"
  proof (rule ccontr)
    assume "\<not> pos p + 4 \<le> buffer_len p"
    then have "buffer_len p < pos p + 4" by simp
    moreover from pos len have "pos p < 2 ^ 63" by simp
    ultimately have "respb_parse_command p cmd = Inr (0, p, cmd)"
      by (intro respb_parse_command_short)
    with r show False by simp
  qed
  from hdr obtain op where op: "read_u16_be (buffer p) (pos p) = Some op"
    using read_u16_be_Some [of "pos p" "buffer p"] by auto
  from hdr obtain mux where mux: "read_u16_be (buffer p) (pos p + 2) = Some mux"
    using read_u16_be_Some [of "pos p + 2" "buffer p"] by auto
  have "pos p + 4 < 2 ^ 64" using len hdr by simp
  then have add: "size_add (pos p) 4 = pos p + 4" by (rule size_add_small)
  let ?p1 = "p\<lparr>pos := pos p + 4\<rparr>"
  let ?c2 = "cmd\<lparr>opcode := op, mux_id := mux, argc := 0, raw_payload := pos p + 4\<rparr>"
  have w: "wf_state (?p1, ?c2)" using len hdr by (simp add: wf_state_def)
  show ?thesis
  proof (cases "switch_lookup op respb_switch")
    case None
    then have "respb_parse_command p cmd = Inr (- 1, ?p1, ?c2)"
      using op mux add hdr by (simp add: respb_parse_command_def Let_def)
    with r show ?thesis by simp
  next
    case (Some body)
    then have "ok_with 0 body" by (rule switch_lookup_ok)
    from ok_withD [OF this w] hdr have g: "good (?p1, ?c2) (body (?p1, ?c2))" by simp
    show ?thesis
    proof (cases "body (?p1, ?c2)")
      case (Cont s')
      obtain p1 c1 where s': "s' = (p1, c1)" by (cases s')
      from g Cont s' have "follows (?p1, ?c2) (p1, c1)" by (simp add: good_def)
      then have o: "opcode c1 = op" by (simp add: follows_def)
      have "respb_parse_command p cmd =
              Inr (1, p1, c1\<lparr>raw_payload_len := size_sub (pos p1) (pos p + 4)\<rparr>)"
        using op mux add hdr Some Cont s' by (simp add: respb_parse_command_def Let_def)
      with r have e: "p' = p1" "c' = c1\<lparr>raw_payload_len := size_sub (pos p1) (pos p + 4)\<rparr>"
        by auto
      with o have "opcode c' = op" by simp
      with Some w Cont s' e show ?thesis by auto
    next
      case (Return v s')
      obtain p1 c1 where s': "s' = (p1, c1)" by (cases s')
      from g Return have "v = 0" by (simp add: good_def)
      then have "respb_parse_command p cmd = Inr (0, p1, c1)"
        using op mux add hdr Some Return s' by (simp add: respb_parse_command_def Let_def)
      with r show ?thesis by simp
    next
      case (Fault x)
      with g show ?thesis by (simp add: good_def)
    qed
  qed
qed

text \<open>
  The frame of \<^verbatim>\<open>MGET\<close> with a declared count of 65 and 65 keys of length 0: four header
  bytes, the count, and two length bytes for each key, 136 bytes in all.
\<close>

definition mget_65_frame :: "byte list" where
  "mget_65_frame = [0x00, 0x0C, 0x00, 0x00, 0x00, 0x41] @ replicate 130 0x00"

text \<open>
  Claim C2, as stated, fails. On the frame above the call returns 1 with 64 arguments
  and the cursor at 134: the loop has stopped at the cap, and the two bytes of the last
  declared key are left in the stream.
\<close>

theorem respb_mget_leaves_declared_elements:
  "length mget_65_frame = 136 \<and> read_u16_be mget_65_frame 4 = Some 65 \<and>
   (case respb_parse_command (respb_parser_init mget_65_frame) respb_command_zero of
      Inl f \<Rightarrow> False
    | Inr (r, p', c') \<Rightarrow> r = 1 \<and> argc c' = 64 \<and> pos p' = 134 \<and> pos p' < buffer_len p')"
  by (simp add: respb_eval mget_65_frame_def for_loop_from.simps nth_append)

text \<open>
  Claim C2, amended. A successful call on a repeated-group command never leaves more than
  \<^verbatim>\<open>RESPB_MAX_ARGS\<close> in \<^verbatim>\<open>argc\<close>, and when \<^verbatim>\<open>argc\<close> is \<^verbatim>\<open>RESPB_MAX_ARGS\<close> the loop has
  read no element beyond its cap: the cursor stands right after the last argument that
  the loop can store (after the fixed trailing bytes of the command, where it has any).
  The bytes of the elements declared beyond the cap are not consumed.
\<close>

theorem respb_repeated_group_stops_at_cap:
  assumes "pos p \<le> buffer_len p" and "buffer_len p < 2 ^ 63"
      and "respb_parse_command p cmd = Inr (1, p', c')"
      and "group_lookup (opcode c') repeated_groups = Some (k, ts)"
  shows "argc c' \<le> RESPB_MAX_ARGS \<and>
         (argc c' = RESPB_MAX_ARGS \<longrightarrow> (\<exists>t \<in> set ts. cursor_after k t p' c'))"
proof -
  from respb_parse_command_success [OF assms(1-3)] obtain body s c0 where
    b: "switch_lookup (opcode c') respb_switch = Some body" and w: "wf_state s"
    and c: "body s = Cont (p', c0)" and e: "c' = c0\<lparr>raw_payload_len := raw_payload_len c'\<rparr>"
    by blast
  from e have a: "argc c' = argc c0" and g: "args c' = args c0"
    by (metis respb_command.select_convs(3) respb_command.surjective respb_command.update_convs(6),
        metis respb_command.select_convs(4) respb_command.surjective respb_command.update_convs(6))
  from ok_Cont_wf [OF switch_lookup_ok [OF b] w c] a have le: "argc c' \<le> RESPB_MAX_ARGS"
    by (simp add: wf_state_def)
  have "\<exists>t \<in> set ts. cursor_after k t p' c'" if full: "argc c' = RESPB_MAX_ARGS"
  proof -
    from full a have "argc (snd (p', c0)) = RESPB_MAX_ARGS" by simp
    from cappedD [OF switch_lookup_capped [OF b assms(4)] w c this] g
    show ?thesis by (simp add: cursor_after_def)
  qed
  with le show ?thesis by blast
qed

theorem respb_repeated_group_stops_at_cap_witness:
  "\<exists>p' c'. respb_parse_command (respb_parser_init mget_65_frame) respb_command_zero = Inr (1, p', c') \<and>
           group_lookup (opcode c') repeated_groups = Some (63, [0]) \<and>
           argc c' = RESPB_MAX_ARGS \<and> cursor_after 63 0 p' c' \<and> pos p' = 134"
proof -
  have "\<exists>p' c'. respb_parse_command (respb_parser_init mget_65_frame) respb_command_zero = Inr (1, p', c') \<and>
                opcode c' = RESPB_OP_MGET \<and> argc c' = RESPB_MAX_ARGS \<and> pos p' = 134"
    by (simp add: respb_eval mget_65_frame_def for_loop_from.simps nth_append)
  then obtain p' c' where
    r: "respb_parse_command (respb_parser_init mget_65_frame) respb_command_zero = Inr (1, p', c')"
    and o: "opcode c' = RESPB_OP_MGET" and a: "argc c' = RESPB_MAX_ARGS" and p: "pos p' = 134"
    by blast
  from o have g: "group_lookup (opcode c') repeated_groups = Some (63, [0])"
    by (simp add: repeated_groups_def)
  have w1: "pos (respb_parser_init mget_65_frame) \<le> buffer_len (respb_parser_init mget_65_frame)"
    by (simp add: respb_parser_init_def)
  have w2: "buffer_len (respb_parser_init mget_65_frame) < 2 ^ 63"
    by (simp add: respb_parser_init_def mget_65_frame_def)
  from respb_repeated_group_stops_at_cap [OF w1 w2 r g] a have "cursor_after 63 0 p' c'" by simp
  with r g a p show ?thesis by blast
qed


section \<open>RESPB serializer (src/respb_serializer.c)\<close>

text \<open>
  \<^verbatim>\<open>respb_write_u16\<close> and \<^verbatim>\<open>respb_write_u32\<close> give the bytes they store, high byte first.
\<close>

definition respb_write_u16 :: "16 word \<Rightarrow> byte list" where
  "respb_write_u16 val = [ucast (drop_bit 8 val AND 0xFF), ucast (val AND 0xFF)]"

definition respb_write_u32 :: "32 word \<Rightarrow> byte list" where
  "respb_write_u32 val =
     [ucast (drop_bit 24 val AND 0xFF), ucast (drop_bit 16 val AND 0xFF),
      ucast (drop_bit 8 val AND 0xFF), ucast (val AND 0xFF)]"

definition respb_write_u64 :: "64 word \<Rightarrow> byte list" where
  "respb_write_u64 val =
     [ucast (drop_bit 56 val AND 0xFF), ucast (drop_bit 48 val AND 0xFF),
      ucast (drop_bit 40 val AND 0xFF), ucast (drop_bit 32 val AND 0xFF),
      ucast (drop_bit 24 val AND 0xFF), ucast (drop_bit 16 val AND 0xFF),
      ucast (drop_bit 8 val AND 0xFF), ucast (val AND 0xFF)]"

definition respb_serialize_header :: "16 word \<Rightarrow> 16 word \<Rightarrow> byte list" where
  "respb_serialize_header opc mux = respb_write_u16 opc @ respb_write_u16 mux"

definition respb_serialize_module_header :: "16 word \<Rightarrow> 32 word \<Rightarrow> byte list" where
  "respb_serialize_module_header mux subcommand =
     respb_write_u16 RESPB_OP_MODULE @ respb_write_u16 mux @ respb_write_u32 subcommand"

text \<open>
  The serializer fills the caller's buffer from offset 0 upwards, so its state is the list
  of bytes written so far and \<^verbatim>\<open>pos\<close> is the length of that list. The arguments of the
  command point into some memory \<open>mem\<close> (offset and length); \<^verbatim>\<open>memcpy\<close> from a range that
  leaves \<open>mem\<close> is a fault. A result is the bytes \<^verbatim>\<open>buf[0..pos)\<close> with \<^verbatim>\<open>return pos\<close>
  (\<open>Written\<close>), \<^verbatim>\<open>return 0\<close> (\<open>NoSpace\<close>), or the fault. Sums of \<^verbatim>\<open>size_t\<close> values
  wrap as in the parser.
\<close>

datatype ser_result = Written "byte list" | NoSpace | SourceFault

fun size_sum :: "nat list \<Rightarrow> nat" where
  "size_sum [] = 0"
| "size_sum (x # xs) = size_add x (size_sum xs)"

definition arg_bytes :: "byte list \<Rightarrow> respb_arg \<Rightarrow> byte list option" where
  "arg_bytes mem a =
     (if data a + len a \<le> length mem then Some (take (len a) (drop (data a) mem)) else None)"

text \<open>
  \<^verbatim>\<open>respb_write_u16(buf + pos, arg.len); pos += 2; memcpy(buf + pos, arg.data, arg.len); pos += arg.len\<close>
  and the same with a four-byte length. The length is a \<^verbatim>\<open>size_t\<close> passed to a
  \<^verbatim>\<open>uint16_t\<close> or \<^verbatim>\<open>uint32_t\<close> parameter: \<open>of_nat\<close> truncates it.
\<close>

definition put_str2 :: "byte list \<Rightarrow> respb_arg \<Rightarrow> byte list \<Rightarrow> ser_result" where
  "put_str2 mem a out =
     (case arg_bytes mem a of None \<Rightarrow> SourceFault
      | Some bs \<Rightarrow> Written (out @ respb_write_u16 (of_nat (len a)) @ bs))"

definition put_str4 :: "byte list \<Rightarrow> respb_arg \<Rightarrow> byte list \<Rightarrow> ser_result" where
  "put_str4 mem a out =
     (case arg_bytes mem a of None \<Rightarrow> SourceFault
      | Some bs \<Rightarrow> Written (out @ respb_write_u32 (of_nat (len a)) @ bs))"

definition ser_then :: "ser_result \<Rightarrow> (byte list \<Rightarrow> ser_result) \<Rightarrow> ser_result" where
  "ser_then r k = (case r of Written out \<Rightarrow> k out | NoSpace \<Rightarrow> NoSpace | SourceFault \<Rightarrow> SourceFault)"

text \<open>
  \<^verbatim>\<open>for (size_t i = i0; i < cmd->argc; i++) { if (pos + 2 + cmd->args[i].len > buf_len) return 0; ... }\<close>
\<close>

function put_strs2 ::
    "byte list \<Rightarrow> nat \<Rightarrow> respb_command \<Rightarrow> nat \<Rightarrow> byte list \<Rightarrow> ser_result" where
  "put_strs2 mem buf_len' cmd i out =
     (if i < argc cmd then
        (if size_sum [length out, 2, len (args cmd i)] > buf_len' then NoSpace
         else ser_then (put_str2 mem (args cmd i) out) (put_strs2 mem buf_len' cmd (i + 1)))
      else Written out)"
  by pat_completeness auto
termination
  by (relation "measure (\<lambda>(mem, bl, cmd, i, out). argc cmd - i)") auto

declare put_strs2.simps [simp del]

text \<open>
  \<^verbatim>\<open>for (size_t i = i0; i < cmd->argc; i += 2) { if (pos + 2 + args[i].len + 4 + args[i + 1].len > buf_len) return 0; ... }\<close>
\<close>

function put_pairs ::
    "byte list \<Rightarrow> nat \<Rightarrow> respb_command \<Rightarrow> nat \<Rightarrow> byte list \<Rightarrow> ser_result" where
  "put_pairs mem buf_len' cmd i out =
     (if i < argc cmd then
        (if size_sum [length out, 2, len (args cmd i), 4, len (args cmd (i + 1))] > buf_len'
         then NoSpace
         else ser_then (put_str2 mem (args cmd i) out) (\<lambda>out1.
              ser_then (put_str4 mem (args cmd (i + 1)) out1) (put_pairs mem buf_len' cmd (i + 2))))
      else Written out)"
  by pat_completeness auto
termination
  by (relation "measure (\<lambda>(mem, bl, cmd, i, out). argc cmd - i)") auto

declare put_pairs.simps [simp del]

text \<open>The payload of \<^verbatim>\<open>case RESPB_OP_MODULE\<close>, after the eight-byte module header.\<close>

definition serialize_module_payload ::
    "byte list \<Rightarrow> nat \<Rightarrow> respb_command \<Rightarrow> byte list \<Rightarrow> ser_result" where
  "serialize_module_payload mem buf_len' cmd out =
     (if module_id cmd = RESPB_MODULE_JSON then
        (if command_id cmd = 0x0000 \<and> argc cmd \<ge> 3 then
           (if size_sum [length out, 2, len (args cmd 0), 2, len (args cmd 1), 4, len (args cmd 2), 1]
                 > buf_len' then NoSpace
            else ser_then (put_str2 mem (args cmd 0) out) (\<lambda>out1.
                 ser_then (put_str2 mem (args cmd 1) out1) (\<lambda>out2.
                 ser_then (put_str4 mem (args cmd 2) out2) (\<lambda>out3.
                 Written (out3 @ [0])))))
         else put_strs2 mem buf_len' cmd 0 out)
      else if module_id cmd = RESPB_MODULE_BF then
        (if command_id cmd = 0x0000 \<and> argc cmd \<ge> 2 then
           (if size_sum [length out, 2, len (args cmd 0), 2, len (args cmd 1)] > buf_len' then NoSpace
            else ser_then (put_str2 mem (args cmd 0) out) (put_str2 mem (args cmd 1)))
         else put_strs2 mem buf_len' cmd 0 out)
      else if module_id cmd = RESPB_MODULE_FT then
        (if command_id cmd = 0x0001 \<and> argc cmd \<ge> 2 then
           (if size_sum [length out, 2, len (args cmd 0), 2, len (args cmd 1)] > buf_len' then NoSpace
            else ser_then (put_str2 mem (args cmd 0) out) (put_str2 mem (args cmd 1)))
         else put_strs2 mem buf_len' cmd 0 out)
      else put_strs2 mem buf_len' cmd 0 out)"

text \<open>
  \<^verbatim>\<open>respb_serialize_command\<close>, case by case in the order of the switch. \<open>mem\<close> is the
  memory the arguments and \<^verbatim>\<open>resp_data\<close> point into, \<open>buf_len'\<close> the capacity of the
  output buffer.
\<close>

definition respb_serialize_command :: "byte list \<Rightarrow> nat \<Rightarrow> respb_command \<Rightarrow> ser_result" where
  "respb_serialize_command mem buf_len' cmd =
     (if buf_len' < 4 then NoSpace
      else
        let out = respb_serialize_header (opcode cmd) (mux_id cmd) in
        if opcode cmd \<in> set [RESPB_OP_GET, RESPB_OP_INCR, RESPB_OP_DECR, RESPB_OP_TTL,
                               RESPB_OP_LLEN, RESPB_OP_SCARD] then
          (if argc cmd < 1 then NoSpace
           else if size_sum [length out, 2, len (args cmd 0)] > buf_len' then NoSpace
           else put_str2 mem (args cmd 0) out)
        else if opcode cmd = RESPB_OP_SET then
          (if argc cmd < 2 then NoSpace
           else if size_sum [length out, 2, len (args cmd 0), 4, len (args cmd 1), 9] > buf_len'
           then NoSpace
           else ser_then (put_str2 mem (args cmd 0) out) (\<lambda>out1.
                ser_then (put_str4 mem (args cmd 1) out1) (\<lambda>out2.
                Written (out2 @ [0] @ respb_write_u64 0))))
        else if opcode cmd = RESPB_OP_APPEND then
          (if argc cmd < 2 then NoSpace
           else if size_sum [length out, 2, len (args cmd 0), 4, len (args cmd 1)] > buf_len'
           then NoSpace
           else ser_then (put_str2 mem (args cmd 0) out) (put_str4 mem (args cmd 1)))
        else if opcode cmd \<in> set [RESPB_OP_INCRBY, RESPB_OP_DECRBY] then
          (if argc cmd < 1 then NoSpace
           else if size_sum [length out, 2, len (args cmd 0), 8] > buf_len' then NoSpace
           else ser_then (put_str2 mem (args cmd 0) out) (\<lambda>out1.
                Written (out1 @ respb_write_u64 1)))
        else if opcode cmd \<in> set [RESPB_OP_MGET, RESPB_OP_DEL, RESPB_OP_EXISTS] then
          (if size_sum [length out, 2] > buf_len' then NoSpace
           else put_strs2 mem buf_len' cmd 0 (out @ respb_write_u16 (of_nat (argc cmd))))
        else if opcode cmd = RESPB_OP_MSET then
          (if argc cmd < 2 \<or> argc cmd mod 2 \<noteq> 0 then NoSpace
           else if size_sum [length out, 2] > buf_len' then NoSpace
           else put_pairs mem buf_len' cmd 0 (out @ respb_write_u16 (of_nat (argc cmd div 2))))
        else if opcode cmd \<in> set [RESPB_OP_LPUSH, RESPB_OP_RPUSH] then
          (if argc cmd < 1 then NoSpace
           else if size_sum [length out, 2, len (args cmd 0), 2] > buf_len' then NoSpace
           else ser_then (put_str2 mem (args cmd 0) out) (\<lambda>out1.
                put_strs2 mem buf_len' cmd 1 (out1 @ respb_write_u16 (of_nat (argc cmd - 1)))))
        else if opcode cmd = RESPB_OP_SADD then
          (if argc cmd < 1 then NoSpace
           else if size_sum [length out, 2, len (args cmd 0), 2] > buf_len' then NoSpace
           else ser_then (put_str2 mem (args cmd 0) out) (\<lambda>out1.
                put_strs2 mem buf_len' cmd 1 (out1 @ respb_write_u16 (of_nat (argc cmd - 1)))))
        else if opcode cmd = RESPB_OP_HSET then
          (if argc cmd < 1 \<or> (argc cmd - 1) mod 2 \<noteq> 0 then NoSpace
           else if size_sum [length out, 2, len (args cmd 0), 2] > buf_len' then NoSpace
           else ser_then (put_str2 mem (args cmd 0) out) (\<lambda>out1.
                put_pairs mem buf_len' cmd 1 (out1 @ respb_write_u16 (of_nat ((argc cmd - 1) div 2)))))
        else if opcode cmd = RESPB_OP_HGET then
          (if argc cmd < 2 then NoSpace
           else if size_sum [length out, 2, len (args cmd 0), 2, len (args cmd 1)] > buf_len'
           then NoSpace
           else ser_then (put_str2 mem (args cmd 0) out) (put_str2 mem (args cmd 1)))
        else if opcode cmd \<in> set [RESPB_OP_PING, RESPB_OP_MULTI, RESPB_OP_EXEC] then
          Written out
        else if opcode cmd = RESPB_OP_MODULE then
          (if buf_len' < 8 then NoSpace
           else serialize_module_payload mem buf_len' cmd
                  (respb_serialize_module_header (mux_id cmd) (module_subcommand cmd)))
        else if opcode cmd = RESPB_OP_RESP_PASSTHROUGH then
          (if buf_len' < 8 then NoSpace
           else
             let out8 = respb_write_u16 RESPB_OP_RESP_PASSTHROUGH @ respb_write_u16 (mux_id cmd) @
                        respb_write_u32 (resp_length cmd)
             in if size_sum [length out8, unat (resp_length cmd)] > buf_len' then NoSpace
                else (case arg_bytes mem \<lparr>data = resp_data cmd, len = unat (resp_length cmd)\<rparr> of
                        None \<Rightarrow> SourceFault
                      | Some bs \<Rightarrow> Written (out8 @ bs)))
        else
          (if size_sum [length out, 2] > buf_len' then NoSpace
           else put_strs2 mem buf_len' cmd 0 (out @ respb_write_u16 (of_nat (argc cmd)))))"

subsection \<open>Round trip through serializer and parser\<close>

text \<open>
  \<^verbatim>\<open>JSON.GET profile .name\<close> as a command record: opcode \<^verbatim>\<open>0xF000\<close>, module
  \<^verbatim>\<open>RESPB_MODULE_JSON\<close>, command \<^verbatim>\<open>0x0001\<close>, two arguments (the key and one path) that
  point into the twelve bytes \<^verbatim>\<open>profile.name\<close>. This is the command of the test
  \<^verbatim>\<open>test_respb_json_get\<close>, whose hand-built frame carries a path count between key and path.
\<close>

definition json_get_mem :: "byte list" where
  "json_get_mem = [0x70, 0x72, 0x6F, 0x66, 0x69, 0x6C, 0x65, 0x2E, 0x6E, 0x61, 0x6D, 0x65]"

definition json_get_cmd :: respb_command where
  "json_get_cmd =
     respb_command_zero\<lparr> opcode := RESPB_OP_MODULE, argc := 2,
       args := (\<lambda>i. if i = 0 then \<lparr>data = 0, len = 7\<rparr>
                     else if i = 1 then \<lparr>data = 7, len = 5\<rparr> else \<lparr>data = 0, len = 0\<rparr>),
       module_subcommand := 0x00000001, module_id := RESPB_MODULE_JSON, command_id := 0x0001 \<rparr>"

definition json_get_frame :: "byte list" where
  "json_get_frame =
     [0xF0, 0x00, 0x00, 0x00, 0x00, 0x00, 0x00, 0x01,
      0x00, 0x07, 0x70, 0x72, 0x6F, 0x66, 0x69, 0x6C, 0x65,
      0x00, 0x05, 0x2E, 0x6E, 0x61, 0x6D, 0x65]"

lemmas ser_eval =
  respb_serialize_command_def serialize_module_payload_def respb_serialize_header_def
  respb_serialize_module_header_def respb_write_u16_def respb_write_u32_def respb_write_u64_def
  put_str2_def put_str4_def ser_then_def arg_bytes_def size_add_def Let_def

text \<open>
  Claim C3 fails on the code at this command. The serializer writes the module header,
  the key and the path, each with a two-byte length, and no path count (its generic
  branch for every JSON command but \<^verbatim>\<open>JSON.SET\<close>). The parser's \<^verbatim>\<open>JSON.GET\<close> branch
  expects \<^verbatim>\<open>[2B keylen][key][2B numpaths]([2B pathlen][path])...\<close>: it takes the path's
  length 5 for the count, then the path bytes \<^verbatim>\<open>.n\<close> for a length of 11886, and returns 0
  (incomplete) with the cursor at 21. No command record comes back from the round trip.
\<close>

theorem json_get_round_trip_incomplete:
  "respb_serialize_command json_get_mem 256 json_get_cmd = Written json_get_frame \<and>
   respb_parse_command (respb_parser_init json_get_frame) respb_command_zero =
     Inr (0, \<lparr>buffer = json_get_frame, pos = 21\<rparr>,
          respb_command_zero\<lparr> opcode := RESPB_OP_MODULE, raw_payload := 4,
            args := (args respb_command_zero)(0 := \<lparr>data = 10, len = 7\<rparr>),
            module_subcommand := 0x00000001, module_id := RESPB_MODULE_JSON,
            command_id := 0x0001 \<rparr>)"
proof
  show "respb_serialize_command json_get_mem 256 json_get_cmd = Written json_get_frame"
    by (simp add: ser_eval json_get_mem_def json_get_cmd_def json_get_frame_def
                  respb_command_zero_def put_strs2.simps)
  show "respb_parse_command (respb_parser_init json_get_frame) respb_command_zero =
     Inr (0, \<lparr>buffer = json_get_frame, pos = 21\<rparr>,
          respb_command_zero\<lparr> opcode := RESPB_OP_MODULE, raw_payload := 4,
            args := (args respb_command_zero)(0 := \<lparr>data = 10, len = 7\<rparr>),
            module_subcommand := 0x00000001, module_id := RESPB_MODULE_JSON,
            command_id := 0x0001 \<rparr>)"
    by (simp add: respb_eval json_get_frame_def for_loop_from.simps)
qed

section \<open>Reference RESP parser (include/valkey_resp_parser.h, src/valkey_resp_parser.c)\<close>

subsection \<open>Constants\<close>




subsection \<open>\<^verbatim>\<open>string2ll\<close>\<close>





subsection \<open>Client state\<close>






subsection \<open>\<^verbatim>\<open>parseMultibulk\<close>\<close>
















subsection \<open>A complete length line at the cursor\<close>







subsection \<open>Bounds on a bulk length\<close>





subsection \<open>Length tokens that are not canonical decimals\<close>







lemma of_char_digits [simp]:
  "(of_char (CHR ''0'') :: nat) = 48" "(of_char (CHR ''1'') :: nat) = 49"
  "(of_char (CHR ''9'') :: nat) = 57"
  by simp_all















end
